theory Spec2Isabelle
  imports Main
begin

section \<open>Python values used by \<open>DatasetGenerator\<close>\<close>

text \<open>
  The source is \<open>src/pytorch/dataset_class.py\<close>, one class \<open>DatasetGenerator\<close>.
  Every exception the class can raise is a value of \<open>py_error\<close>; a function that may
  raise returns \<open>py_error + 'a\<close> with \<open>Inl\<close> for the exception.
\<close>

datatype py_error =
    FileNotFoundError string
  | IndexError
  | AxisError
  | ValueError
  | KeyError
  | NameError string
  | AttributeError string

subsection \<open>Strings\<close>

text \<open>\<open>s.split('_')\<close>: never empty, one more segment than there are separators.\<close>

fun split_us :: "string \<Rightarrow> string list" where
  "split_us [] = [[]]"
| "split_us (c # cs) =
     (if c = CHR ''_'' then [] # split_us cs
      else (case split_us cs of
              [] \<Rightarrow> [[c]]
            | w # ws \<Rightarrow> (c # w) # ws))"

text \<open>\<open>'_'.join(segs)\<close>.\<close>

fun join_us :: "string list \<Rightarrow> string" where
  "join_us [] = []"
| "join_us [w] = w"
| "join_us (w # v # ws) = w @ ''_'' @ join_us (v # ws)"

text \<open>\<open>needle in hay\<close> on two strings: \<open>needle\<close> occurs as a contiguous run.\<close>

fun str_contains :: "string \<Rightarrow> string \<Rightarrow> bool" where
  "str_contains needle [] = (needle = [])"
| "str_contains needle (c # cs) =
     (take (length needle) (c # cs) = needle \<or> str_contains needle cs)"

text \<open>
  \<open>os.path.join(a, b)\<close> for two arguments on POSIX: an absolute \<open>b\<close> replaces \<open>a\<close>,
  otherwise one separator is put between them unless \<open>a\<close> is empty or ends with one.
\<close>

definition os_path_join :: "string \<Rightarrow> string \<Rightarrow> string" where
  "os_path_join a b =
     (if b \<noteq> [] \<and> hd b = CHR ''/'' then b
      else if a = [] \<or> last a = CHR ''/'' then a @ b
      else a @ ''/'' @ b)"

section \<open>Index expansion in \<open>__init__\<close> (lines 54 to 62)\<close>

text \<open>
  The label table is a pandas object: an ordered sequence of rows, each an identifier of the
  index with its label. It is an association list here, since order decides positional
  access and pandas does not forbid duplicate identifiers.
\<close>

type_synonym 'l label_table = "(string \<times> 'l) list"

text \<open>\<open>index\<close> of a label table, and \<open>len\<close>.\<close>

definition index_of :: "'l label_table \<Rightarrow> string list" where
  "index_of labels = map fst labels"

text \<open>
  \<open>augment_idx[aug] = self.labels.copy(deep=True)\<close> followed by
  \<open>augment_idx[aug].index = augment_idx[aug].index + '_' + aug\<close>.
\<close>

definition suffixed_copy :: "'l label_table \<Rightarrow> string \<Rightarrow> 'l label_table" where
  "suffixed_copy labels aug = map (\<lambda>(i, l). (i @ ''_'' @ aug, l)) labels"

text \<open>
  \<open>augment_idx\<close> is a Python dict: assigning to a key that is present replaces the value
  and keeps the key's position, assigning to a new key appends it.
\<close>

fun dict_set :: "('k \<times> 'v) list \<Rightarrow> 'k \<Rightarrow> 'v \<Rightarrow> ('k \<times> 'v) list" where
  "dict_set [] k v = [(k, v)]"
| "dict_set ((k', v') # d) k v =
     (if k' = k then (k, v) # d else (k', v') # dict_set d k v)"

definition dict_values :: "('k \<times> 'v) list \<Rightarrow> 'v list" where
  "dict_values d = map snd d"

text \<open>
  The loop \<open>for aug in self.augment_types\<close>. Its state is the dict \<open>augment_idx\<close> and
  \<open>self.data_indices\<close>; \<open>self.labels\<close> is read only, it is replaced after the loop.
\<close>

fun expand_loop ::
  "'l label_table \<Rightarrow> string list \<Rightarrow> (string \<times> 'l label_table) list \<times> string list
     \<Rightarrow> (string \<times> 'l label_table) list \<times> string list" where
  "expand_loop labels [] st = st"
| "expand_loop labels (aug # augs) (augment_idx, data_indices) =
     (let cp = suffixed_copy labels aug;
          augment_idx' = dict_set augment_idx aug cp;
          data_indices' = data_indices @ index_of cp
      in expand_loop labels augs (augment_idx', data_indices'))"

text \<open>
  The block under \<open>if self.to_augment\<close>: the new \<open>self.labels\<close>
  (\<open>pd.concat([self.labels, *augment_idx.values()])\<close>) and the new \<open>self.data_indices\<close>.
\<close>

definition expand_index ::
  "bool \<Rightarrow> string list \<Rightarrow> 'l label_table \<Rightarrow> string list \<Rightarrow> 'l label_table \<times> string list" where
  "expand_index to_augment augment_types labels data_indices =
     (if to_augment then
        (let (augment_idx, data_indices') = expand_loop labels augment_types ([], data_indices)
         in (concat (labels # dict_values augment_idx), data_indices'))
      else (labels, data_indices))"

text \<open>\<open>__len__\<close>: \<open>len(self.labels)\<close>.\<close>

definition len_labels :: "'l label_table \<Rightarrow> nat" where
  "len_labels labels = length labels"

section \<open>Arrays\<close>

text \<open>
  A numpy array is its shape and its elements in row-major (C) order. The element type is
  left open: the class itself only indexes, mirrors, reshapes and stacks arrays, all
  arithmetic on elements is done by library calls.
\<close>

datatype 'a ndarray = NDArray (shape: "nat list") (data: "'a list")

definition wf_array :: "'a ndarray \<Rightarrow> bool" where
  "wf_array a = (length (data a) = prod_list (shape a))"

definition ndim :: "'a ndarray \<Rightarrow> nat" where
  "ndim a = length (shape a)"

text \<open>The \<open>i\<close>-th run of \<open>m\<close> elements: the data of the \<open>i\<close>-th sub-array of the leading axis.\<close>

definition chunk :: "nat \<Rightarrow> nat \<Rightarrow> 'a list \<Rightarrow> 'a list" where
  "chunk i m d = take m (drop (i * m) d)"

text \<open>\<open>a[i]\<close> for a non-negative integer \<open>i\<close>.\<close>

definition getitem_int :: "'a ndarray \<Rightarrow> nat \<Rightarrow> py_error + 'a ndarray" where
  "getitem_int a i =
     (case shape a of
        [] \<Rightarrow> Inl IndexError
      | n # s \<Rightarrow> if i < n then Inr (NDArray s (chunk i (prod_list s) (data a)))
                 else Inl IndexError)"

text \<open>\<open>a[[i0, i1, ...]]\<close>: integer-array indexing of the leading axis.\<close>

definition getitem_list :: "'a ndarray \<Rightarrow> nat list \<Rightarrow> py_error + 'a ndarray" where
  "getitem_list a ixs =
     (case shape a of
        [] \<Rightarrow> Inl IndexError
      | n # s \<Rightarrow>
          if list_all (\<lambda>i. i < n) ixs
          then Inr (NDArray (length ixs # s)
                 (concat (map (\<lambda>i. chunk i (prod_list s) (data a)) ixs)))
          else Inl IndexError)"

text \<open>\<open>a[lo:hi]\<close> for non-negative bounds: a slice is clipped to the axis, it never raises.\<close>

definition getitem_slice :: "'a ndarray \<Rightarrow> nat \<Rightarrow> nat \<Rightarrow> py_error + 'a ndarray" where
  "getitem_slice a lo hi =
     (case shape a of
        [] \<Rightarrow> Inl IndexError
      | n # s \<Rightarrow>
          (let hi' = min hi n; lo' = min lo hi'
           in Inr (NDArray ((hi' - lo') # s)
                (take ((hi' - lo') * prod_list s) (drop (lo' * prod_list s) (data a))))))"

text \<open>
  \<open>np.flip(a, axis=axes)\<close>: \<open>flip_data\<close> walks the axes from the leading one, with one flag
  per axis saying whether that axis is mirrored.
\<close>

fun flip_data :: "bool list \<Rightarrow> nat list \<Rightarrow> 'a list \<Rightarrow> 'a list" where
  "flip_data (f # fs) (n # s) d =
     (let cs = map (\<lambda>i. flip_data fs s (chunk i (prod_list s) d)) [0..<n]
      in concat (if f then rev cs else cs))"
| "flip_data fs s d = d"

definition np_flip :: "'a ndarray \<Rightarrow> nat list \<Rightarrow> py_error + 'a ndarray" where
  "np_flip a axes =
     (if list_all (\<lambda>ax. ax < ndim a) axes
      then Inr (NDArray (shape a)
             (flip_data (map (\<lambda>k. k \<in> set axes) [0..<ndim a]) (shape a) (data a)))
      else Inl AxisError)"

text \<open>
  \<open>np.reshape(a, newshape)\<close>. One entry of \<open>newshape\<close> may be negative (written \<open>-1\<close> by
  convention, but numpy takes any negative entry): numpy then infers that extent from the
  size of the array. A second negative entry, or sizes that do not agree, raise ValueError.
\<close>

definition np_reshape :: "'a ndarray \<Rightarrow> int list \<Rightarrow> py_error + 'a ndarray" where
  "np_reshape a newshape =
     (let size = length (data a);
          known = prod_list (map nat (filter (\<lambda>x. 0 \<le> x) newshape))
      in if length (filter (\<lambda>x. x < 0) newshape) = 0 then
           (if known = size then Inr (NDArray (map nat newshape) (data a))
            else Inl ValueError)
         else if length (filter (\<lambda>x. x < 0) newshape) = 1 then
           (if known \<noteq> 0 \<and> size mod known = 0
            then Inr (NDArray (map (\<lambda>x. if x < 0 then size div known else nat x) newshape)
                   (data a))
            else Inl ValueError)
         else Inl ValueError)"

text \<open>\<open>np.expand_dims(a, axis=0)\<close>.\<close>

definition expand_dims0 :: "'a ndarray \<Rightarrow> 'a ndarray" where
  "expand_dims0 a = NDArray (1 # shape a) (data a)"

text \<open>
  Broadcasting of a value of shape \<open>vs\<close> to a shape \<open>s\<close> of the same length: an axis of
  extent 1 is repeated, any other axis must agree.
\<close>

fun broadcast_data :: "nat list \<Rightarrow> nat list \<Rightarrow> 'a list \<Rightarrow> 'a list" where
  "broadcast_data (v # vs) (n # s) d =
     (if v = n then concat (map (\<lambda>i. broadcast_data vs s (chunk i (prod_list vs) d)) [0..<n])
      else concat (replicate n (broadcast_data vs s d)))"
| "broadcast_data vs s d = d"

text \<open>
  The shape of the value as an assignment aligns it with the target: extra leading axes of
  extent 1 are dropped, missing leading axes are added with extent 1.
\<close>

fun align_shape :: "nat list \<Rightarrow> nat \<Rightarrow> nat list" where
  "align_shape vs k =
     (if length vs \<le> k then replicate (k - length vs) 1 @ vs
      else (case vs of
              [] \<Rightarrow> []
            | v # vs' \<Rightarrow> if v = 1 then align_shape vs' k else v # vs'))"

declare align_shape.simps [simp del]

text \<open>
  \<open>a[i] = v\<close> and \<open>a[i,:,:,:] = v\<close> on the values: the \<open>i\<close>-th sub-array of the leading axis
  is overwritten with \<open>v\<close> broadcast to its shape; the shape of \<open>a\<close> never changes.
\<close>

definition setitem_int :: "'a ndarray \<Rightarrow> nat \<Rightarrow> 'a ndarray \<Rightarrow> py_error + 'a ndarray" where
  "setitem_int a i v =
     (case shape a of
        [] \<Rightarrow> Inl IndexError
      | n # s \<Rightarrow>
          if \<not> i < n then Inl IndexError
          else (let vs = align_shape (shape v) (length s)
                in if length vs = length s \<and> list_all2 (\<lambda>x y. x = y \<or> x = 1) vs s
                   then Inr (NDArray (n # s)
                          (take (i * prod_list s) (data a)
                           @ broadcast_data vs s (data v)
                           @ drop (Suc i * prod_list s) (data a)))
                   else Inl ValueError))"

text \<open>
  \<open>a[i,:,:,:]\<close>: as \<open>a[i]\<close>, but four indices are too many for an array of fewer than four
  axes.
\<close>

definition getitem_int_3slices :: "'a ndarray \<Rightarrow> nat \<Rightarrow> py_error + 'a ndarray" where
  "getitem_int_3slices a i = (if ndim a < 4 then Inl IndexError else getitem_int a i)"

definition setitem_int_3slices ::
  "'a ndarray \<Rightarrow> nat \<Rightarrow> 'a ndarray \<Rightarrow> py_error + 'a ndarray" where
  "setitem_int_3slices a i v = (if ndim a < 4 then Inl IndexError else setitem_int a i v)"

text \<open>\<open>xs[i]\<close> on a Python sequence or a one-dimensional numpy array, \<open>i\<close> any integer.\<close>

definition py_index :: "'x list \<Rightarrow> int \<Rightarrow> py_error + 'x" where
  "py_index xs i =
     (let n = int (length xs); j = (if i < 0 then i + n else i)
      in if 0 \<le> j \<and> j < n then Inr (xs ! nat j) else Inl IndexError)"

text \<open>
  Elements by their indices, one index per axis: \<open>element a [i, j, k]\<close> is \<open>a[i, j, k]\<close>
  for indices within the shape. \<open>mirror_index axes s ix\<close> is the index \<open>ix\<close> with the
  coordinate of every axis listed in \<open>axes\<close> counted from the other end of that axis.
\<close>

fun flat_index :: "nat list \<Rightarrow> nat list \<Rightarrow> nat" where
  "flat_index (n # s) (i # ix) = i * prod_list s + flat_index s ix"
| "flat_index s ix = 0"

definition element :: "'a ndarray \<Rightarrow> nat list \<Rightarrow> 'a" where
  "element a ix = data a ! flat_index (shape a) ix"

definition valid_index :: "nat list \<Rightarrow> nat list \<Rightarrow> bool" where
  "valid_index s ix = list_all2 (\<lambda>i n. i < n) ix s"

fun mirror_from :: "nat \<Rightarrow> nat list \<Rightarrow> nat list \<Rightarrow> nat list \<Rightarrow> nat list" where
  "mirror_from p axes (n # s) (i # ix) =
     (if p \<in> set axes then n - 1 - i else i) # mirror_from (Suc p) axes s ix"
| "mirror_from p axes s ix = []"

definition mirror_index :: "nat list \<Rightarrow> nat list \<Rightarrow> nat list \<Rightarrow> nat list" where
  "mirror_index axes s ix = mirror_from 0 axes s ix"

section \<open>Channel selection in \<open>get_pat_array\<close> (lines 109 to 117)\<close>

definition select_channels :: "int \<Rightarrow> 'a ndarray \<Rightarrow> py_error + 'a ndarray" where
  "select_channels n_channels in_arr =
     (if n_channels > 1 then
        (if n_channels = 5 then Inr in_arr
         else if n_channels = 4 then getitem_list in_arr [0, 1, 2, 4]
         else getitem_slice in_arr 0 3)
      else getitem_int in_arr 3)"

section \<open>\<open>apply_flip\<close> (lines 209 to 214)\<close>

text \<open>On values \<open>.copy()\<close> changes nothing; what it does to storage is modelled further down.\<close>

definition apply_flip :: "int \<Rightarrow> 'a ndarray \<Rightarrow> py_error + 'a ndarray" where
  "apply_flip n_channels arr =
     (if n_channels = 1 then np_flip arr [0, 1, 2] else np_flip arr [1, 2, 3])"

section \<open>Storage of arrays: views and copies\<close>

text \<open>
  Whether two numpy arrays share storage is not visible in their values, so for
  \<open>apply_flip\<close> the storage is modelled too. Memory is a sequence of buffers. An array
  object refers to a buffer by its position, walks it from an offset in row-major order,
  and walks an axis backwards where \<open>reversed\<close> says so (a negative stride): that is what
  \<open>np.flip\<close> returns, a view of the same buffer. \<open>.copy()\<close> allocates a new buffer and
  writes the elements of the view into it in order.
\<close>

record array_ref =
  base :: nat
  offset :: nat
  ref_shape :: "nat list"
  reversed :: "bool list"

type_synonym 'a memory = "'a list list"

definition valid_ref :: "'a memory \<Rightarrow> array_ref \<Rightarrow> bool" where
  "valid_ref mem r =
     (base r < length mem
      \<and> offset r + prod_list (ref_shape r) \<le> length (mem ! base r)
      \<and> length (reversed r) = length (ref_shape r))"

text \<open>The value an array object denotes in a memory.\<close>

definition contents :: "'a memory \<Rightarrow> array_ref \<Rightarrow> 'a ndarray" where
  "contents mem r =
     NDArray (ref_shape r)
       (flip_data (reversed r) (ref_shape r)
          (take (prod_list (ref_shape r)) (drop (offset r) (mem ! base r))))"

definition np_flip_view :: "array_ref \<Rightarrow> nat list \<Rightarrow> py_error + array_ref" where
  "np_flip_view r axes =
     (if list_all (\<lambda>ax. ax < length (ref_shape r)) axes
      then Inr (r\<lparr>reversed :=
                  map2 (\<noteq>) (reversed r) (map (\<lambda>k. k \<in> set axes) [0..<length (ref_shape r)])\<rparr>)
      else Inl AxisError)"

definition ndarray_copy :: "'a memory \<Rightarrow> array_ref \<Rightarrow> array_ref \<times> 'a memory" where
  "ndarray_copy mem r =
     (\<lparr>base = length mem, offset = 0, ref_shape = ref_shape r,
       reversed = replicate (length (ref_shape r)) False\<rparr>,
      mem @ [data (contents mem r)])"

text \<open>\<open>apply_flip\<close> on array objects: \<open>np.flip(arr, axis=...).copy()\<close>.\<close>

definition apply_flip_stored ::
  "int \<Rightarrow> 'a memory \<Rightarrow> array_ref \<Rightarrow> (py_error + array_ref) \<times> 'a memory" where
  "apply_flip_stored n_channels mem arr =
     (case (if n_channels = 1 then np_flip_view arr [0, 1, 2] else np_flip_view arr [1, 2, 3]) of
        Inl e \<Rightarrow> (Inl e, mem)
      | Inr v \<Rightarrow> (let (c, mem') = ndarray_copy mem v in (Inr c, mem')))"

section \<open>Library calls and the state outside the class\<close>

text \<open>
  The class calls numpy's generators, scikit-image, elasticdeform and
  \<open>gbm_project.data_prep.retrieve_data\<close>. None of them is part of the source, so they are
  parameters of the model, each one free to raise:
  \<^item> \<open>default_rng seed\<close> is the state of a new \<open>np.random.default_rng(seed)\<close>;
  \<^item> \<open>rng_integers g low high\<close> is \<open>g.integers(low, high=high)\<close>: the number drawn and
    the generator's next state;
  \<^item> \<open>random_noise arr g\<close> is \<open>random_noise(arr, mode='gaussian', seed=g)\<close>;
  \<^item> \<open>skimage_rotate arr angle\<close> is \<open>rotate(arr, angle, preserve_range=True)\<close>;
  \<^item> \<open>deform_random_grid arr axes g\<close> is
    \<open>elasticdeform.deform_random_grid(arr, sigma=5, order=0, axis=axes)\<close>, which draws from
    numpy's global generator \<open>g\<close>;
  \<^item> \<open>retrieve_data csv_dir modality\<close> is the first component of what \<open>retrieve_data\<close>
    returns, and \<open>loc_rows t ids\<close> is \<open>t.loc[ids, 2:]\<close>;
  \<^item> \<open>np_empty_contents\<close> is what the memory handed out by \<open>np.empty\<close> holds.
\<close>

record ('a, 'g, 't) library =
  default_rng :: "int \<Rightarrow> 'g"
  rng_integers :: "'g \<Rightarrow> int \<Rightarrow> int \<Rightarrow> int \<times> 'g"
  random_noise :: "'a ndarray \<Rightarrow> 'g \<Rightarrow> (py_error + 'a ndarray) \<times> 'g"
  skimage_rotate :: "'a ndarray \<Rightarrow> int \<Rightarrow> py_error + 'a ndarray"
  deform_random_grid :: "'a ndarray \<Rightarrow> nat list \<Rightarrow> 'g \<Rightarrow> (py_error + 'a ndarray) \<times> 'g"
  retrieve_data :: "string \<Rightarrow> string \<Rightarrow> py_error + 't"
  loc_rows :: "'t \<Rightarrow> string list \<Rightarrow> py_error + 't"
  np_empty_contents :: 'a

text \<open>
  What an observer of the augmentation randomness sees: each angle drawn by
  \<open>apply_rotation\<close> and each result of \<open>apply_noise\<close>.
\<close>

datatype 'a event = Angle int | NoiseOutcome "py_error + 'a ndarray"

text \<open>
  Generator objects live in a store and are referred to by their position in it, since an
  instance holds references to two generators that every access advances. \<open>global_rng\<close> is
  numpy's global generator. \<open>observed\<close> records the events above in the order they happen; the
  class never reads it.
\<close>

record ('a, 'g) world =
  generators :: "'g list"
  global_rng :: 'g
  observed :: "'a event list"

text \<open>Sequencing of calls that may raise: without and with the state.\<close>

definition bind_e :: "py_error + 'x \<Rightarrow> ('x \<Rightarrow> py_error + 'y) \<Rightarrow> py_error + 'y" where
  "bind_e r f = (case r of Inl e \<Rightarrow> Inl e | Inr x \<Rightarrow> f x)"

definition then_w ::
  "(py_error + 'x) \<times> 'w \<Rightarrow> ('x \<Rightarrow> 'w \<Rightarrow> (py_error + 'y) \<times> 'w) \<Rightarrow> (py_error + 'y) \<times> 'w" where
  "then_w rw f = (case rw of (Inl e, w) \<Rightarrow> (Inl e, w) | (Inr x, w) \<Rightarrow> f x w)"

section \<open>The class \<open>DatasetGenerator\<close>\<close>

text \<open>The arguments of \<open>__init__\<close> and the attributes it sets.\<close>

record ('a, 'l) init_args =
  arg_data_indices :: "string list"
  arg_labels :: "'l label_table"
  arg_data_dir :: string
  arg_csv_dir :: string
  arg_modality :: "string list"
  arg_dim :: "int list"
  arg_n_channels :: int
  arg_to_augment :: bool
  arg_to_encode :: bool
  arg_to_sectionate :: bool
  arg_augment_types :: "string list"
  arg_seed :: int
  arg_transform :: "('a ndarray \<Rightarrow> 'a ndarray) option"
  arg_target_transform :: "('l list \<Rightarrow> 'l list) option"

record ('a, 'l, 't) DatasetGenerator =
  labels :: "'l label_table"
  data_indices :: "string list"
  n_channels :: int
  dim :: "int list"
  rng_noise :: nat
  rng_rotate :: nat
  data_dir :: string
  csv_dir :: string
  modality :: "string list"
  to_augment :: bool
  augment_types :: "string list"
  to_encode :: bool
  radiomics :: "'t option"
  to_sectionate :: bool
  transform :: "('a ndarray \<Rightarrow> 'a ndarray) option"
  target_transform :: "('l list \<Rightarrow> 'l list) option"

text \<open>The defaults of the signature of \<open>__init__\<close>, for the two arguments without one.\<close>

definition default_args :: "string list \<Rightarrow> 'l label_table \<Rightarrow> ('a, 'l) init_args" where
  "default_args ids lbls =
     \<lparr> arg_data_indices = ids, arg_labels = lbls,
       arg_data_dir = ''../../data/upenn_GBM/images/NIfTI-files/'',
       arg_csv_dir = ''../../data/upenn_GBM/csvs/radiomic_features_CaPTk/'',
       arg_modality = [''FLAIR''], arg_dim = [70, 86, 86], arg_n_channels = 3,
       arg_to_augment = False, arg_to_encode = False, arg_to_sectionate = False,
       arg_augment_types = [''noise'', ''flip'', ''rotate'', ''deform''], arg_seed = 42,
       arg_transform = None, arg_target_transform = None \<rparr>"

subsection \<open>\<open>__init__\<close>\<close>

text \<open>
  Lines 38 to 51, the block under \<open>if self.to_encode\<close>. The name \<open>StandardScaler\<close> is
  bound nowhere in the module (it is neither imported nor defined), so line 45 raises
  NameError once the retrieval and the row selection before it have returned; the lines
  after it never run.
\<close>

definition prepare_radiomics ::
  "('a, 'g, 't) library \<Rightarrow> ('a, 'l) init_args \<Rightarrow> py_error + 't" where
  "prepare_radiomics lib args =
     bind_e (py_index (arg_modality args) 0) (\<lambda>m0.
       (let modality_tmp = (if m0 = ''mod'' then ''FLAIR'' else m0)
        in bind_e (retrieve_data lib (arg_csv_dir args) modality_tmp) (\<lambda>temp_radiomics.
             bind_e (loc_rows lib temp_radiomics (arg_data_indices args)) (\<lambda>r.
               Inl (NameError ''StandardScaler'')))))"

text \<open>
  The whole of \<open>__init__\<close>. The two generators are created at lines 25 and 26, before the
  encoding block, so they exist in the store also when that block raises.
\<close>

definition DatasetGenerator_init ::
  "('a, 'g, 't) library \<Rightarrow> ('a, 'l) init_args \<Rightarrow> ('a, 'g) world
     \<Rightarrow> (py_error + ('a, 'l, 't) DatasetGenerator) \<times> ('a, 'g) world" where
  "DatasetGenerator_init lib args w =
     (let n_ch = (if length (arg_modality args) > 1 then int (length (arg_modality args))
                  else arg_n_channels args);
          noise_ref = length (generators w);
          rotate_ref = Suc (length (generators w));
          w' = w\<lparr>generators := generators w
                  @ [default_rng lib (arg_seed args), default_rng lib (arg_seed args)]\<rparr>
      in case (if arg_to_encode args then map_sum id Some (prepare_radiomics lib args)
               else Inr None) of
           Inl e \<Rightarrow> (Inl e, w')
         | Inr rad \<Rightarrow>
             (let (labels', data_indices') =
                    expand_index (arg_to_augment args) (arg_augment_types args)
                      (arg_labels args) (arg_data_indices args)
              in (Inr \<lparr> labels = labels', data_indices = data_indices', n_channels = n_ch,
                        dim = arg_dim args, rng_noise = noise_ref, rng_rotate = rotate_ref,
                        data_dir = arg_data_dir args, csv_dir = arg_csv_dir args,
                        modality = arg_modality args, to_augment = arg_to_augment args,
                        augment_types = arg_augment_types args,
                        to_encode = arg_to_encode args, radiomics = rad,
                        to_sectionate = arg_to_sectionate args,
                        transform = arg_transform args,
                        target_transform = arg_target_transform args \<rparr>, w')))"

text \<open>\<open>__len__\<close>.\<close>

definition DatasetGenerator_len :: "('a, 'l, 't) DatasetGenerator \<Rightarrow> nat" where
  "DatasetGenerator_len self = len_labels (labels self)"

subsection \<open>The augmentations\<close>

definition apply_noise ::
  "('a, 'g, 't) library \<Rightarrow> ('a, 'l, 't) DatasetGenerator \<Rightarrow> 'a ndarray \<Rightarrow> ('a, 'g) world
     \<Rightarrow> (py_error + 'a ndarray) \<times> ('a, 'g) world" where
  "apply_noise lib self arr w =
     (let (r, g') = random_noise lib arr (generators w ! rng_noise self)
      in (r, w\<lparr>generators := (generators w)[rng_noise self := g'],
               observed := observed w @ [NoiseOutcome r]\<rparr>))"

text \<open>
  One line \<open>arr[i,:,:,:] = rotate(arr[i,:,:,:], angle, preserve_range=True)\<close> for each index
  of the list, in order.
\<close>

fun rotate_slices ::
  "('a, 'g, 't) library \<Rightarrow> int \<Rightarrow> nat list \<Rightarrow> 'a ndarray \<Rightarrow> py_error + 'a ndarray" where
  "rotate_slices lib angle [] arr = Inr arr"
| "rotate_slices lib angle (i # is) arr =
     bind_e (getitem_int_3slices arr i) (\<lambda>sl.
       bind_e (skimage_rotate lib sl angle) (\<lambda>r.
         bind_e (setitem_int_3slices arr i r) (\<lambda>arr'.
           rotate_slices lib angle is arr')))"

definition apply_rotation ::
  "('a, 'g, 't) library \<Rightarrow> ('a, 'l, 't) DatasetGenerator \<Rightarrow> 'a ndarray \<Rightarrow> ('a, 'g) world
     \<Rightarrow> (py_error + 'a ndarray) \<times> ('a, 'g) world" where
  "apply_rotation lib self arr w =
     (let (angle, g') = rng_integers lib (generators w ! rng_rotate self) (- 180) 180;
          w' = w\<lparr>generators := (generators w)[rng_rotate self := g'],
                 observed := observed w @ [Angle angle]\<rparr>
      in (if n_channels self = 1 then skimage_rotate lib arr angle
          else if n_channels self = 4 then rotate_slices lib angle [0, 1, 2, 3] arr
          else if n_channels self = 5 then rotate_slices lib angle [0, 1, 2, 3, 4] arr
          else rotate_slices lib angle [0, 1, 2] arr, w'))"

definition apply_deformation ::
  "('a, 'g, 't) library \<Rightarrow> ('a, 'l, 't) DatasetGenerator \<Rightarrow> 'a ndarray \<Rightarrow> ('a, 'g) world
     \<Rightarrow> (py_error + 'a ndarray) \<times> ('a, 'g) world" where
  "apply_deformation lib self arr w =
     (let (r, g') = deform_random_grid lib arr
                      (if n_channels self = 1 then [0, 1, 2] else [1, 2, 3]) (global_rng w)
      in (r, w\<lparr>global_rng := g'\<rparr>))"

text \<open>
  Lines 119 to 128 and 160 to 169: \<open>aug in self.augment_types\<close> is membership in the
  collection of kinds, the four tests under it are substring tests on \<open>aug\<close>.
\<close>

definition routed :: "string list \<Rightarrow> string \<Rightarrow> bool" where
  "routed kinds pat_idx = (last (split_us pat_idx) \<in> set kinds)"

definition augment ::
  "('a, 'g, 't) library \<Rightarrow> ('a, 'l, 't) DatasetGenerator \<Rightarrow> string \<Rightarrow> 'a ndarray
     \<Rightarrow> ('a, 'g) world \<Rightarrow> (py_error + 'a ndarray) \<times> ('a, 'g) world" where
  "augment lib self pat_idx in_arr w =
     (let aug = last (split_us pat_idx)
      in if routed (augment_types self) pat_idx then
           then_w (if str_contains ''flip'' aug then (apply_flip (n_channels self) in_arr, w)
                   else (Inr in_arr, w)) (\<lambda>in_arr w.
           then_w (if str_contains ''rotate'' aug then apply_rotation lib self in_arr w
                   else (Inr in_arr, w)) (\<lambda>in_arr w.
           then_w (if str_contains ''noise'' aug then apply_noise lib self in_arr w
                   else (Inr in_arr, w)) (\<lambda>in_arr w.
           if str_contains ''deform'' aug then apply_deformation lib self in_arr w
           else (Inr in_arr, w))))
         else (Inr in_arr, w))"

subsection \<open>Loading\<close>

text \<open>The files under \<open>data_dir\<close>: \<open>np.load(path)\<close> raises for a path that is not there.\<close>

definition np_load :: "(string \<Rightarrow> 'a ndarray option) \<Rightarrow> string \<Rightarrow> py_error + 'a ndarray" where
  "np_load fs path = (case fs path of None \<Rightarrow> Inl (FileNotFoundError path) | Some a \<Rightarrow> Inr a)"

text \<open>Lines 100 to 106 and 149 to 155: the name of the file for an identifier.\<close>

definition file_name :: "('a, 'l, 't) DatasetGenerator \<Rightarrow> string \<Rightarrow> string \<Rightarrow> string" where
  "file_name self pat_idx mod_name =
     (if to_augment self then
        (if length (split_us pat_idx) = 3
         then join_us (take 2 (split_us pat_idx)) @ ''_'' @ mod_name @ ''.npy''
         else pat_idx @ ''_'' @ mod_name @ ''.npy'')
      else pat_idx @ ''_'' @ mod_name @ ''.npy'')"

definition get_pat_array ::
  "('a, 'g, 't) library \<Rightarrow> (string \<Rightarrow> 'a ndarray option) \<Rightarrow> ('a, 'l, 't) DatasetGenerator
     \<Rightarrow> string \<Rightarrow> ('a, 'g) world \<Rightarrow> (py_error + 'a ndarray) \<times> ('a, 'g) world" where
  "get_pat_array lib fs self pat_idx w =
     then_w (bind_e (py_index (modality self) 0) (\<lambda>m0.
               bind_e (np_load fs (os_path_join (data_dir self) (file_name self pat_idx m0)))
                 (select_channels (n_channels self))), w) (\<lambda>in_arr w.
     then_w (augment lib self pat_idx in_arr w) (\<lambda>in_arr w.
       (if to_sectionate self then
          (if n_channels self = 1 then np_reshape in_arr (dim self)
           else np_reshape in_arr (dim self @ [n_channels self]))
        else Inr in_arr, w)))"

text \<open>\<open>np.empty(shape)\<close>: a negative extent raises.\<close>

definition np_empty :: "('a, 'g, 't) library \<Rightarrow> int list \<Rightarrow> py_error + 'a ndarray" where
  "np_empty lib shp =
     (if list_ex (\<lambda>x. x < 0) shp then Inl ValueError
      else Inr (NDArray (map nat shp)
             (replicate (prod_list (map nat shp)) (np_empty_contents lib))))"

text \<open>The loop \<open>for imod, mod in enumerate(self.modality)\<close> of lines 148 to 158.\<close>

fun stack_modalities ::
  "(string \<Rightarrow> 'a ndarray option) \<Rightarrow> ('a, 'l, 't) DatasetGenerator \<Rightarrow> string \<Rightarrow> nat
     \<Rightarrow> string list \<Rightarrow> 'a ndarray \<Rightarrow> py_error + 'a ndarray" where
  "stack_modalities fs self pat_idx imod [] mod_arr = Inr mod_arr"
| "stack_modalities fs self pat_idx imod (mod_name # mods) mod_arr =
     bind_e (np_load fs (os_path_join (data_dir self) (file_name self pat_idx mod_name))) (\<lambda>in_arr.
       bind_e (getitem_int in_arr 3) (\<lambda>whole_tumor.
         bind_e (setitem_int mod_arr imod whole_tumor) (\<lambda>mod_arr'.
           stack_modalities fs self pat_idx (Suc imod) mods mod_arr')))"

definition get_pat_mod_array ::
  "('a, 'g, 't) library \<Rightarrow> (string \<Rightarrow> 'a ndarray option) \<Rightarrow> ('a, 'l, 't) DatasetGenerator
     \<Rightarrow> string \<Rightarrow> ('a, 'g) world \<Rightarrow> (py_error + 'a ndarray) \<times> ('a, 'g) world" where
  "get_pat_mod_array lib fs self pat_idx w =
     then_w (bind_e (np_empty lib (int (length (modality self)) # dim self))
               (stack_modalities fs self pat_idx 0 (modality self)), w)
       (augment lib self pat_idx)"

subsection \<open>\<open>__getitem__\<close> and \<open>encode\<close>\<close>

text \<open>
  \<open>self.labels.loc[pat_idx]\<close>: the labels of all rows with that identifier, one label when
  the identifier is unique.
\<close>

definition loc_label :: "'l label_table \<Rightarrow> string \<Rightarrow> 'l list" where
  "loc_label lbls pat_idx = map snd (filter (\<lambda>(i, l). i = pat_idx) lbls)"

text \<open>
  Lines 68 to 91. Tensors are the arrays they are made from. Nothing in the method reads
  \<open>self.to_encode\<close> or calls \<open>encode\<close>.
\<close>

definition DatasetGenerator_getitem ::
  "('a, 'g, 't) library \<Rightarrow> (string \<Rightarrow> 'a ndarray option) \<Rightarrow> ('a, 'l, 't) DatasetGenerator
     \<Rightarrow> int \<Rightarrow> ('a, 'g) world \<Rightarrow> (py_error + 'a ndarray \<times> 'l list) \<times> ('a, 'g) world" where
  "DatasetGenerator_getitem lib fs self idx w =
     then_w (py_index (index_of (labels self)) idx, w) (\<lambda>pat_idx w.
       (let label = loc_label (labels self) pat_idx
        in then_w (if length (modality self) < 2 then get_pat_array lib fs self pat_idx w
                   else get_pat_mod_array lib fs self pat_idx w) (\<lambda>in_arr w.
           then_w (if to_sectionate self then np_reshape in_arr (dim self) else Inr in_arr, w)
             (\<lambda>in_arr w.
               (let in_arr = (case transform self of None \<Rightarrow> in_arr | Some f \<Rightarrow> f in_arr);
                    label = (case target_transform self of None \<Rightarrow> label | Some f \<Rightarrow> f label);
                    in_arr = (if n_channels self = 1 then expand_dims0 in_arr else in_arr)
                in (Inr (in_arr, label), w))))))"

text \<open>
  Lines 217 to 232. A numpy array has no method \<open>append\<close>, so the first statement raises
  AttributeError and the overlay of the feature blocks below it never runs.
\<close>

definition encode ::
  "('a, 'l, 't) DatasetGenerator \<Rightarrow> 'a ndarray \<Rightarrow> string \<Rightarrow> py_error + 'a ndarray" where
  "encode self arr idx = Inl (AttributeError ''append'')"

text \<open>
  What the model assumes of \<open>random_noise\<close> and \<open>deform_random_grid\<close> where a claim is about
  shapes: a result has the shape of the argument, as both libraries document.
\<close>

definition shape_preserving :: "('a, 'g, 't) library \<Rightarrow> bool" where
  "shape_preserving lib =
     ((\<forall>arr g r. fst (random_noise lib arr g) = Inr r \<longrightarrow> shape r = shape arr)
      \<and> (\<forall>arr axes g r. fst (deform_random_grid lib arr axes g) = Inr r
            \<longrightarrow> shape r = shape arr))"

section \<open>The augmentation step as the specification words it\<close>

text \<open>
  The four transformations in the fixed order of the specification, each applying when its
  name occurs in the suffix segment. To be compared with \<open>augment\<close>, which is the code.
\<close>

datatype transformation = Flip | Rotate | Noise | Deform

fun transformation_name :: "transformation \<Rightarrow> string" where
  "transformation_name Flip = ''flip''"
| "transformation_name Rotate = ''rotate''"
| "transformation_name Noise = ''noise''"
| "transformation_name Deform = ''deform''"

fun apply_transformation ::
  "('a, 'g, 't) library \<Rightarrow> ('a, 'l, 't) DatasetGenerator \<Rightarrow> transformation \<Rightarrow> 'a ndarray
     \<Rightarrow> ('a, 'g) world \<Rightarrow> (py_error + 'a ndarray) \<times> ('a, 'g) world" where
  "apply_transformation lib self Flip arr w = (apply_flip (n_channels self) arr, w)"
| "apply_transformation lib self Rotate arr w = apply_rotation lib self arr w"
| "apply_transformation lib self Noise arr w = apply_noise lib self arr w"
| "apply_transformation lib self Deform arr w = apply_deformation lib self arr w"

fun run_transformations ::
  "('a, 'g, 't) library \<Rightarrow> ('a, 'l, 't) DatasetGenerator \<Rightarrow> transformation list \<Rightarrow> 'a ndarray
     \<Rightarrow> ('a, 'g) world \<Rightarrow> (py_error + 'a ndarray) \<times> ('a, 'g) world" where
  "run_transformations lib self [] arr w = (Inr arr, w)"
| "run_transformations lib self (t # ts) arr w =
     then_w (apply_transformation lib self t arr w) (run_transformations lib self ts)"

definition applicable :: "string \<Rightarrow> transformation list" where
  "applicable seg =
     filter (\<lambda>t. str_contains (transformation_name t) seg) [Flip, Rotate, Noise, Deform]"

text \<open>
  Routing by a substring match, in both readings of the words: a configured kind occurs in
  the suffix segment, or the suffix segment occurs in a configured kind.
\<close>

definition kind_in_segment :: "string list \<Rightarrow> string \<Rightarrow> bool" where
  "kind_in_segment kinds pat_idx = list_ex (\<lambda>k. str_contains k (last (split_us pat_idx))) kinds"

definition segment_in_kind :: "string list \<Rightarrow> string \<Rightarrow> bool" where
  "segment_in_kind kinds pat_idx = list_ex (str_contains (last (split_us pat_idx))) kinds"

section \<open>A small library, file system and instance to run the model on\<close>

text \<open>
  Stand-ins for the library calls, with integer elements and a counter for a generator:
  the \<open>n\<close>-th draw from a generator is \<open>n\<close> itself brought into the range asked for, noise
  adds the counter to every element, rotation and deformation return their argument.
\<close>

definition example_library :: "(int, nat, unit) library" where
  "example_library =
     \<lparr> default_rng = (\<lambda>seed. nat \<bar>seed\<bar>),
       rng_integers = (\<lambda>g low high. (low + int g mod (high - low), Suc g)),
       random_noise = (\<lambda>arr g. (Inr (NDArray (shape arr) (map (\<lambda>x. x + int g) (data arr))), Suc g)),
       skimage_rotate = (\<lambda>arr angle. Inr arr),
       deform_random_grid = (\<lambda>arr axes g. (Inr arr, Suc g)),
       retrieve_data = (\<lambda>csv_dir modality. Inr ()),
       loc_rows = (\<lambda>t ids. Inr t),
       np_empty_contents = 0 \<rparr>"

definition example_world :: "(int, nat) world" where
  "example_world = \<lparr> generators = [], global_rng = 0, observed = [] \<rparr>"

text \<open>Files for the examples: one volume of four sub-regions under the default directory.\<close>

definition example_files :: "string \<Rightarrow> string \<Rightarrow> int ndarray option" where
  "example_files name =
     (\<lambda>path. if path = ''../../data/upenn_GBM/images/NIfTI-files/'' @ name
             then Some (NDArray [4, 2, 1, 1] [1, 2, 3, 4, 5, 6, 7, 8]) else None)"

text \<open>Two modalities of one patient.\<close>

definition example_modality_files :: "string \<Rightarrow> int ndarray option" where
  "example_modality_files =
     (\<lambda>path. if path = ''../../data/upenn_GBM/images/NIfTI-files/P_1_T1.npy''
             then Some (NDArray [4, 2, 1, 1] [1, 2, 3, 4, 5, 6, 7, 8])
             else if path = ''../../data/upenn_GBM/images/NIfTI-files/P_1_T2.npy''
             then Some (NDArray [4, 2, 1, 1] [11, 12, 13, 14, 15, 16, 17, 18])
             else None)"

section \<open>The end-to-end flip scenario\<close>

text \<open>
  The arguments of the scenario: one identifier with its label, one channel, augmentation
  enabled with the kinds \<open>('flip',)\<close>, every other argument at its default.
\<close>

definition scenario_args :: "string \<Rightarrow> 'l \<Rightarrow> ('a, 'l) init_args" where
  "scenario_args I l =
     (default_args [I] [(I, l)])
       \<lparr>arg_n_channels := 1, arg_to_augment := True, arg_augment_types := [''flip'']\<rparr>"

section \<open>Replaying a sequence of accesses\<close>

text \<open>
  A caller makes one item access after the other on the same instance; an access that
  raises leaves the generators as far advanced as they were when it raised.
\<close>

fun run_accesses ::
  "('a, 'g, 't) library \<Rightarrow> (string \<Rightarrow> 'a ndarray option) \<Rightarrow> ('a, 'l, 't) DatasetGenerator
     \<Rightarrow> int list \<Rightarrow> ('a, 'g) world \<Rightarrow> ('a, 'g) world" where
  "run_accesses lib fs self [] w = w"
| "run_accesses lib fs self (idx # idxs) w =
     run_accesses lib fs self idxs (snd (DatasetGenerator_getitem lib fs self idx w))"

text \<open>
  What is observed of the augmentation randomness during a replay: the angles and the
  noise outcomes, in order, counted from the start of the replay.
\<close>

definition trace ::
  "('a, 'g, 't) library \<Rightarrow> (string \<Rightarrow> 'a ndarray option) \<Rightarrow> ('a, 'l, 't) DatasetGenerator
     \<Rightarrow> int list \<Rightarrow> ('a, 'g) world \<Rightarrow> 'a event list" where
  "trace lib fs self idxs w = observed (run_accesses lib fs self idxs (w\<lparr>observed := []\<rparr>))"

text \<open>
  The array handed to the augmentations by either loader (lines 100 to 117, and 146 to
  158): it depends on the files and the configuration only.
\<close>

definition loaded ::
  "('a, 'g, 't) library \<Rightarrow> (string \<Rightarrow> 'a ndarray option) \<Rightarrow> ('a, 'l, 't) DatasetGenerator
     \<Rightarrow> string \<Rightarrow> py_error + 'a ndarray" where
  "loaded lib fs self pat_idx =
     (if length (modality self) < 2 then
        bind_e (py_index (modality self) 0) (\<lambda>m0.
          bind_e (np_load fs (os_path_join (data_dir self) (file_name self pat_idx m0)))
            (select_channels (n_channels self)))
      else bind_e (np_empty lib (int (length (modality self)) # dim self))
             (stack_modalities fs self pat_idx 0 (modality self)))"

text \<open>
  Relations used to compare two runs. Two instances have the same configuration when they
  differ at most in the generators they refer to. A pair of an instance and a state
  simulates another when each instance refers to two distinct generators of its state, the
  generators referred to are in the same states, and the same events have been observed.
  A run of an instance frames the generators: it changes none but the two of the instance.
\<close>

definition same_config ::
  "('a, 'l, 't) DatasetGenerator \<Rightarrow> ('a, 'l, 't) DatasetGenerator \<Rightarrow> bool" where
  "same_config a b = (b = a\<lparr>rng_noise := rng_noise b, rng_rotate := rng_rotate b\<rparr>)"

definition rng_sim ::
  "('a, 'l, 't) DatasetGenerator \<Rightarrow> ('a, 'g) world \<Rightarrow> ('a, 'l, 't) DatasetGenerator
     \<Rightarrow> ('a, 'g) world \<Rightarrow> bool" where
  "rng_sim a wa b wb =
     (rng_noise a < length (generators wa) \<and> rng_rotate a < length (generators wa)
      \<and> rng_noise a \<noteq> rng_rotate a
      \<and> rng_noise b < length (generators wb) \<and> rng_rotate b < length (generators wb)
      \<and> rng_noise b \<noteq> rng_rotate b
      \<and> generators wa ! rng_noise a = generators wb ! rng_noise b
      \<and> generators wa ! rng_rotate a = generators wb ! rng_rotate b
      \<and> observed wa = observed wb)"

definition gens_frame ::
  "('a, 'l, 't) DatasetGenerator \<Rightarrow> ('a, 'g) world \<Rightarrow> ('a, 'g) world \<Rightarrow> bool" where
  "gens_frame self w w' =
     (length (generators w') = length (generators w)
      \<and> (\<forall>k. k \<noteq> rng_noise self \<and> k \<noteq> rng_rotate self
            \<longrightarrow> generators w' ! k = generators w ! k))"

section \<open>Index expansion: properties\<close>

lemma dict_set_fresh:
  "k \<notin> fst ` set d \<Longrightarrow> dict_set d k v = d @ [(k, v)]"
  by (induction d) auto

lemma expand_loop_distinct:
  "distinct (map fst d @ augs) \<Longrightarrow>
   expand_loop lbls augs (d, ix) =
     (d @ map (\<lambda>aug. (aug, suffixed_copy lbls aug)) augs,
      ix @ concat (map (\<lambda>aug. index_of (suffixed_copy lbls aug)) augs))"
proof (induction augs arbitrary: d ix)
  case Nil
  then show ?case by simp
next
  case (Cons aug augs)
  from Cons.prems have fresh: "aug \<notin> fst ` set d" by auto
  from Cons.prems have "distinct (map fst (d @ [(aug, suffixed_copy lbls aug)]) @ augs)"
    by auto
  from Cons.IH [OF this] fresh show ?case
    by (simp add: dict_set_fresh Let_def)
qed

lemma expand_index_blocks:
  assumes "distinct K"
  shows "fst (expand_index True K L ix) = L @ concat (map (suffixed_copy L) K)"
  using expand_loop_distinct [of "[]" K L ix] assms
  by (simp add: expand_index_def dict_values_def comp_def)

lemma length_concat_copies:
  "length (concat (map (suffixed_copy L) K)) = length K * length L"
  by (induction K) (simp_all add: suffixed_copy_def)

lemma expand_index_correct:
  assumes "K \<noteq> []" and "distinct K"
  shows "len_labels (fst (expand_index True K L ix)) = (1 + length K) * length L
       \<and> fst (expand_index True K L ix) = L @ concat (map (suffixed_copy L) K)
       \<and> (\<forall>(I, l) \<in> set L. \<forall>k \<in> set K.
            (I, l) \<in> set (fst (expand_index True K L ix))
          \<and> (I @ ''_'' @ k, l) \<in> set (fst (expand_index True K L ix)))"
proof -
  have blocks: "fst (expand_index True K L ix) = L @ concat (map (suffixed_copy L) K)"
    using assms(2) by (rule expand_index_blocks)
  have len: "len_labels (fst (expand_index True K L ix)) = (1 + length K) * length L"
    by (simp add: blocks len_labels_def length_concat_copies)
  have mem: "(I, l) \<in> set (fst (expand_index True K L ix))
           \<and> (I @ ''_'' @ k, l) \<in> set (fst (expand_index True K L ix))"
    if "(I, l) \<in> set L" "k \<in> set K" for I l k
  proof -
    have "(I @ ''_'' @ k, l) \<in> set (suffixed_copy L k)"
      using that(1) by (force simp: suffixed_copy_def)
    with that show ?thesis by (auto simp: blocks)
  qed
  from len blocks mem show ?thesis by blast
qed

section \<open>Arrays: properties\<close>

lemma length_chunk:
  "i < n \<Longrightarrow> length d = n * m \<Longrightarrow> length (chunk i m d) = m"
proof -
  assume a: "i < n" "length d = n * m"
  then have "Suc i \<le> n" by simp
  then have "Suc i * m \<le> n * m" by (rule mult_le_mono1)
  then have "m \<le> n * m - i * m" by simp
  with a show ?thesis by (simp add: chunk_def)
qed

lemma chunk_concat:
  "\<forall>xs \<in> set xss. length xs = m \<Longrightarrow> j < length xss \<Longrightarrow> chunk j m (concat xss) = xss ! j"
proof (induction xss arbitrary: j)
  case Nil
  then show ?case by simp
next
  case (Cons xs xss)
  show ?case
  proof (cases j)
    case 0
    with Cons.prems show ?thesis by (simp add: chunk_def)
  next
    case (Suc k)
    with Cons.prems have "chunk k m (concat xss) = xss ! k"
      by (intro Cons.IH) auto
    with Suc Cons.prems show ?thesis by (simp add: chunk_def)
  qed
qed

lemma concat_chunks:
  "length d = n * m \<Longrightarrow> concat (map (\<lambda>i. chunk i m d) [0..<n]) = d"
proof (induction n arbitrary: d rule: nat.induct)
  case zero
  then show ?case by simp
next
  case (Suc n)
  have "concat (map (\<lambda>i. chunk i m d) [0..<Suc n]) =
        concat (map (\<lambda>i. chunk i m d) [0..<n]) @ chunk n m d"
    by simp
  also have "concat (map (\<lambda>i. chunk i m d) [0..<n]) =
             concat (map (\<lambda>i. chunk i m (take (n * m) d)) [0..<n])"
  proof -
    have "chunk i m d = chunk i m (take (n * m) d)" if "i < n" for i
    proof -
      from that have "Suc i * m \<le> n * m" by (intro mult_le_mono1) simp
      then have "m + i * m \<le> n * m" by simp
      then show ?thesis by (simp add: chunk_def take_drop min_def)
    qed
    then show ?thesis by (intro arg_cong [where f = concat]) simp
  qed
  also have "\<dots> = take (n * m) d"
    using Suc.prems by (intro Suc.IH) simp
  also have "chunk n m d = drop (n * m) d"
    using Suc.prems by (simp add: chunk_def)
  finally show ?case by simp
qed

lemma length_concat_uniform:
  "\<forall>xs \<in> set xss. length xs = m \<Longrightarrow> length (concat xss) = length xss * m"
  by (induction xss) simp_all

lemma length_flip_data:
  "length d = prod_list s \<Longrightarrow> length (flip_data fs s d) = length d"
proof (induction fs s d rule: flip_data.induct)
  case (1 f fs n s d)
  let ?m = "prod_list s"
  let ?cs = "map (\<lambda>i. flip_data fs s (chunk i ?m d)) [0..<n]"
  from "1.prems" have len: "length d = n * ?m" by simp
  have each: "length (flip_data fs s (chunk i ?m d)) = ?m" if "i < n" for i
    using "1.IH" [of i] that length_chunk [OF that len] by simp
  then have "\<forall>xs \<in> set ?cs. length xs = ?m" by auto
  then have "length (concat ?cs) = n * ?m" "length (concat (rev ?cs)) = n * ?m"
    using length_concat_uniform [of ?cs ?m] length_concat_uniform [of "rev ?cs" ?m] by simp_all
  then show ?case using len by (simp add: Let_def)
qed simp_all

lemma flip_data_unfold:
  "flip_data (f # fs) (n # s) d =
     concat ((if f then rev else id) (map (\<lambda>i. flip_data fs s (chunk i (prod_list s) d)) [0..<n]))"
  by (simp add: Let_def)

lemma chunk_flip_data:
  assumes len: "length d = n * prod_list s" and i: "i < n"
  shows "chunk i (prod_list s) (flip_data (f # fs) (n # s) d) =
         flip_data fs s (chunk (if f then n - Suc i else i) (prod_list s) d)"
proof -
  let ?m = "prod_list s"
  let ?cs = "map (\<lambda>i. flip_data fs s (chunk i ?m d)) [0..<n]"
  have each: "length (flip_data fs s (chunk k ?m d)) = ?m" if "k < n" for k
    using length_flip_data [of "chunk k ?m d" s fs] length_chunk [OF that len] by simp
  then have uni: "\<forall>xs \<in> set ((if f then rev else id) ?cs). length xs = ?m" by auto
  have "chunk i ?m (concat ((if f then rev else id) ?cs)) = ((if f then rev else id) ?cs) ! i"
    using i by (intro chunk_concat [OF uni]) simp
  also have "\<dots> = flip_data fs s (chunk (if f then n - Suc i else i) ?m d)"
    using i by (simp add: rev_nth)
  finally show ?thesis by (simp only: flip_data_unfold)
qed

lemma flip_data_compose:
  "length d = prod_list s \<Longrightarrow> length fs = length gs \<Longrightarrow>
   flip_data gs s (flip_data fs s d) = flip_data (map2 (\<noteq>) fs gs) s d"
proof (induction fs s d arbitrary: gs rule: flip_data.induct)
  case (1 f fs n s d)
  then obtain g gs' where gs: "gs = g # gs'" and lgs: "length fs = length gs'"
    by (cases gs) auto
  let ?m = "prod_list s"
  from "1.prems" have len: "length d = n * ?m" by simp
  have clen: "length (chunk i ?m d) = ?m" if "i < n" for i
    using length_chunk [OF that len] .
  let ?h = "\<lambda>i. flip_data (map2 (\<noteq>) fs gs') s (chunk i ?m d)"
  have A: "map (\<lambda>i. flip_data gs' s (chunk i ?m (flip_data (f # fs) (n # s) d))) [0..<n]
         = (if f then rev else id) (map ?h [0..<n])"
  proof (rule nth_equalityI)
    show "length (map (\<lambda>i. flip_data gs' s (chunk i ?m (flip_data (f # fs) (n # s) d))) [0..<n])
        = length ((if f then rev else id) (map ?h [0..<n]))" by simp
  next
    fix i assume "i < length (map (\<lambda>i. flip_data gs' s (chunk i ?m (flip_data (f # fs) (n # s) d))) [0..<n])"
    then have i: "i < n" by simp
    let ?k = "if f then n - Suc i else i"
    from i have k: "?k < n" by simp
    have "flip_data gs' s (chunk i ?m (flip_data (f # fs) (n # s) d))
        = flip_data gs' s (flip_data fs s (chunk ?k ?m d))"
      using chunk_flip_data [OF len i] by simp
    also have "\<dots> = ?h ?k"
      using "1.IH" [of ?k gs'] k clen [OF k] lgs by simp
    finally show "map (\<lambda>i. flip_data gs' s (chunk i ?m (flip_data (f # fs) (n # s) d))) [0..<n] ! i
               = (if f then rev else id) (map ?h [0..<n]) ! i"
      using i by (simp add: rev_nth)
  qed
  have "flip_data gs (n # s) (flip_data (f # fs) (n # s) d)
      = concat ((if g then rev else id) ((if f then rev else id) (map ?h [0..<n])))"
    unfolding gs by (subst flip_data_unfold) (simp only: A)
  also have "\<dots> = concat ((if f \<noteq> g then rev else id) (map ?h [0..<n]))"
    by simp
  also have "\<dots> = flip_data (map2 (\<noteq>) (f # fs) gs) (n # s) d"
    unfolding gs by (simp add: Let_def)
  finally show ?case .
qed simp_all

lemma flip_data_none:
  "length d = prod_list s \<Longrightarrow> flip_data (replicate k False) s d = d"
proof (induction k arbitrary: s d)
  case 0
  then show ?case by simp
next
  case (Suc k)
  show ?case
  proof (cases s)
    case Nil
    then show ?thesis by simp
  next
    case (Cons n s')
    with Suc.prems have len: "length d = n * prod_list s'" by simp
    have A: "map (\<lambda>i. flip_data (replicate k False) s' (chunk i (prod_list s') d)) [0..<n]
        = map (\<lambda>i. chunk i (prod_list s') d) [0..<n]"
      using Suc.IH length_chunk [OF _ len] by (intro map_cong) simp_all
    have "flip_data (replicate (Suc k) False) s d =
          concat (map (\<lambda>i. flip_data (replicate k False) s' (chunk i (prod_list s') d)) [0..<n])"
      using Cons by (simp add: Let_def)
    also have "\<dots> = d" by (simp only: A concat_chunks [OF len])
    finally show ?thesis .
  qed
qed

lemma flip_data_twice:
  assumes "length d = prod_list s"
  shows "flip_data fs s (flip_data fs s d) = d"
proof -
  have "map2 (\<noteq>) fs fs = replicate (length fs) False"
    by (induction fs) simp_all
  with flip_data_compose [OF assms, of fs fs] flip_data_none [OF assms] show ?thesis by simp
qed

lemma getitem_int_getitem_list:
  assumes "wf_array v" and "shape v = n # s" and "list_all (\<lambda>i. i < n) ixs"
    and "getitem_list v ixs = Inr r" and "j < length ixs"
  shows "getitem_int r j = getitem_int v (ixs ! j)"
proof -
  let ?m = "prod_list s"
  let ?cs = "map (\<lambda>i. chunk i ?m (data v)) ixs"
  from assms(1,2) have len: "length (data v) = n * ?m" by (simp add: wf_array_def)
  from assms(2,3,4) have r: "r = NDArray (length ixs # s) (concat ?cs)"
    by (simp add: getitem_list_def)
  have "\<forall>xs \<in> set ?cs. length xs = ?m"
    using assms(3) length_chunk [OF _ len] by (auto simp: list_all_iff)
  from chunk_concat [OF this, of j] assms(5) have "chunk j ?m (concat ?cs) = chunk (ixs ! j) ?m (data v)"
    by simp
  moreover from assms(3,5) have "ixs ! j < n" by (simp add: list_all_length)
  ultimately show ?thesis using assms(2,5) by (simp add: getitem_int_def r)
qed

lemma getitem_slice_as_list:
  assumes "shape v = n # s" and "hi \<le> n"
  shows "getitem_slice v 0 hi = getitem_list v [0..<hi]"
proof -
  let ?m = "prod_list s"
  have "take (k * ?m) (data v) = concat (map (\<lambda>i. chunk i ?m (data v)) [0..<k])" for k
  proof (induction k)
    case 0
    then show ?case by simp
  next
    case (Suc k)
    have "Suc k * ?m = k * ?m + ?m" by simp
    then have "take (Suc k * ?m) (data v) = take (k * ?m) (data v) @ chunk k ?m (data v)"
      by (simp only: take_add chunk_def)
    with Suc show ?case by simp
  qed
  with assms show ?thesis
    by (simp add: getitem_slice_def getitem_list_def list_all_iff min_def)
qed

text \<open>
  Claim C4, as amended. For a loaded four-dimensional volume with \<open>n\<close> entries on its
  leading axis: channel count 5 returns the volume unchanged; 4 returns the entries
  0, 1, 2, 4 when the volume has a fifth entry and raises IndexError when it has not; any
  other count above 1 returns the entries 0, 1, 2; channel count 1 returns entry 3 alone,
  without the leading axis, so with one axis fewer than the results for the counts above 1.
\<close>

theorem C4_channel_selection:
  assumes "wf_array v" and "shape v = n # s" and "length s = 3"
  shows "select_channels 5 v = Inr v
       \<and> (5 \<le> n \<longrightarrow>
            (\<exists>r. select_channels 4 v = Inr r \<and> shape r = 4 # s
               \<and> map (getitem_int r) [0, 1, 2, 3] = map (getitem_int v) [0, 1, 2, 4]))
       \<and> (n < 5 \<longrightarrow> select_channels 4 v = Inl IndexError)
       \<and> (1 < c \<and> c \<noteq> 4 \<and> c \<noteq> 5 \<and> 3 \<le> n \<longrightarrow>
            (\<exists>r. select_channels c v = Inr r \<and> shape r = 3 # s
               \<and> map (getitem_int r) [0, 1, 2] = map (getitem_int v) [0, 1, 2]))
       \<and> (4 \<le> n \<longrightarrow>
            (\<exists>r. select_channels 1 v = Inr r \<and> getitem_int v 3 = Inr r \<and> shape r = s
               \<and> r = NDArray s (chunk 3 (prod_list s) (data v))))
       \<and> (\<forall>r1 rc. 1 < c \<and> select_channels 1 v = Inr r1 \<and> select_channels c v = Inr rc
            \<longrightarrow> ndim r1 = 3 \<and> ndim rc = 4 \<and> ndim rc = ndim r1 + 1)"
proof -
  have five: "select_channels 5 v = Inr v" by (simp add: select_channels_def)
  have four: "\<exists>r. select_channels 4 v = Inr r \<and> shape r = 4 # s
               \<and> map (getitem_int r) [0, 1, 2, 3] = map (getitem_int v) [0, 1, 2, 4]" if "5 \<le> n"
  proof -
    from that have all: "list_all (\<lambda>i. i < n) [0, 1, 2, 4]" by simp
    with assms(2) obtain r where r: "getitem_list v [0, 1, 2, 4] = Inr r" and sh: "shape r = 4 # s"
      by (simp add: getitem_list_def)
    note g = getitem_int_getitem_list [OF assms(1,2) all r]
    from g [of 0] g [of 1] g [of 2] g [of 3] r sh show ?thesis
      by (simp add: select_channels_def)
  qed
  have three: "\<exists>r. select_channels c v = Inr r \<and> shape r = 3 # s
               \<and> map (getitem_int r) [0, 1, 2] = map (getitem_int v) [0, 1, 2]"
    if "1 < c" "c \<noteq> 4" "c \<noteq> 5" "3 \<le> n"
  proof -
    have u: "[0..<3] = [0, 1, 2::nat]" by (simp add: upt_conv_Cons)
    from that have all: "list_all (\<lambda>i. i < n) [0, 1, 2]" by simp
    with assms(2) obtain r where r: "getitem_list v [0, 1, 2] = Inr r" and sh: "shape r = 3 # s"
      by (simp add: getitem_list_def)
    note g = getitem_int_getitem_list [OF assms(1,2) all r]
    have "select_channels c v = getitem_list v [0, 1, 2]"
      using that getitem_slice_as_list [OF assms(2) that(4)] by (simp add: select_channels_def u)
    with g [of 0] g [of 1] g [of 2] r sh show ?thesis by simp
  qed
  have one: "\<exists>r. select_channels 1 v = Inr r \<and> getitem_int v 3 = Inr r \<and> shape r = s
               \<and> r = NDArray s (chunk 3 (prod_list s) (data v))" if "4 \<le> n"
    using that assms(2) by (simp add: select_channels_def getitem_int_def)
  have dims: "ndim r1 = 3 \<and> ndim rc = 4 \<and> ndim rc = ndim r1 + 1"
    if "1 < c" "select_channels 1 v = Inr r1" "select_channels c v = Inr rc" for r1 rc
    using that assms(2,3)
    by (auto simp: select_channels_def getitem_int_def getitem_list_def getitem_slice_def
          ndim_def Let_def split: if_splits)
  have err4: "select_channels 4 v = Inl IndexError" if "n < 5"
    using that assms(2) by (auto simp: select_channels_def getitem_list_def)
  from five four err4 three one dims show ?thesis by blast
qed

text \<open>
  Claim C4 as stated fails for channel count 4 on a volume with exactly four entries on its
  leading axis, the least the storage layout asks for: index 4 is out of range.
\<close>

theorem C4_channel_selection_counterexample:
  "wf_array (NDArray [4, 1, 1, 1] [10, 11, 12, 13 :: int])
   \<and> ndim (NDArray [4, 1, 1, 1] [10, 11, 12, 13 :: int]) = 4
   \<and> select_channels 4 (NDArray [4, 1, 1, 1] [10, 11, 12, 13 :: int]) = Inl IndexError"
  by (simp add: wf_array_def ndim_def select_channels_def getitem_list_def)

theorem C4_channel_selection_witness:
  "wf_array (NDArray [5, 1, 1, 1] [10, 11, 12, 13, 14 :: int])
   \<and> select_channels 5 (NDArray [5, 1, 1, 1] [10, 11, 12, 13, 14 :: int])
       = Inr (NDArray [5, 1, 1, 1] [10, 11, 12, 13, 14])
   \<and> select_channels 4 (NDArray [5, 1, 1, 1] [10, 11, 12, 13, 14 :: int])
       = Inr (NDArray [4, 1, 1, 1] [10, 11, 12, 14])
   \<and> select_channels 3 (NDArray [5, 1, 1, 1] [10, 11, 12, 13, 14 :: int])
       = Inr (NDArray [3, 1, 1, 1] [10, 11, 12])
   \<and> select_channels 1 (NDArray [5, 1, 1, 1] [10, 11, 12, 13, 14 :: int])
       = Inr (NDArray [1, 1, 1] [13])"
  using C4_channel_selection [of "NDArray [5, 1, 1, 1] [10, 11, 12, 13, 14 :: int]" 5 "[1, 1, 1]" 3]
  by (simp add: wf_array_def select_channels_def getitem_list_def getitem_slice_def
        getitem_int_def chunk_def)

lemma np_flip_twice:
  assumes "wf_array a" and "np_flip a axes = Inr b"
  shows "np_flip b axes = Inr a"
proof -
  from assms(2) have ok: "list_all (\<lambda>ax. ax < ndim a) axes"
    and b: "b = NDArray (shape a) (flip_data (map (\<lambda>k. k \<in> set axes) [0..<ndim a]) (shape a) (data a))"
    by (auto simp: np_flip_def split: if_splits)
  from assms(1) have "length (data a) = prod_list (shape a)" by (simp add: wf_array_def)
  from flip_data_twice [OF this] ok show ?thesis
    by (simp add: np_flip_def b ndim_def)
qed

lemma contents_np_flip_view:
  assumes "valid_ref mem r" and "np_flip_view r axes = Inr v"
  shows "np_flip (contents mem r) axes = Inr (contents mem v)"
proof -
  let ?s = "ref_shape r"
  let ?d = "take (prod_list ?s) (drop (offset r) (mem ! base r))"
  let ?g = "map (\<lambda>k. k \<in> set axes) [0..<length ?s]"
  from assms(2) have ok: "list_all (\<lambda>ax. ax < length ?s) axes"
    and v: "v = r\<lparr>reversed := map2 (\<noteq>) (reversed r) ?g\<rparr>"
    by (auto simp: np_flip_view_def split: if_splits)
  from assms(1) have len: "length ?d = prod_list ?s" and lr: "length (reversed r) = length ?g"
    by (auto simp: valid_ref_def)
  from flip_data_compose [OF len lr] ok show ?thesis
    by (simp add: np_flip_def contents_def v ndim_def)
qed

lemma wf_contents:
  assumes "valid_ref mem r"
  shows "wf_array (contents mem r)"
proof -
  let ?d = "take (prod_list (ref_shape r)) (drop (offset r) (mem ! base r))"
  from assms have "length ?d = prod_list (ref_shape r)" by (auto simp: valid_ref_def)
  from length_flip_data [OF this] this show ?thesis
    by (simp add: wf_array_def contents_def)
qed

lemma contents_copy:
  assumes "valid_ref mem v" and "ndarray_copy mem v = (c, mem')"
  shows "contents mem' c = contents mem v" and "valid_ref mem' c" and "base c = length mem"
    and "mem' = mem @ [data (contents mem v)]"
proof -
  from assms(2) have c: "c = \<lparr>base = length mem, offset = 0, ref_shape = ref_shape v,
       reversed = replicate (length (ref_shape v)) False\<rparr>"
    and m: "mem' = mem @ [data (contents mem v)]"
    by (auto simp: ndarray_copy_def)
  have w: "length (data (contents mem v)) = prod_list (ref_shape v)"
    using wf_contents [OF assms(1)] by (simp add: wf_array_def contents_def)
  show "mem' = mem @ [data (contents mem v)]" by (rule m)
  show "base c = length mem" by (simp add: c)
  show "valid_ref mem' c" using w by (simp add: valid_ref_def c m)
  have "contents mem' c = NDArray (ref_shape v) (data (contents mem v))"
    using w flip_data_none [of "data (contents mem v)" "ref_shape v"]
    by (simp add: contents_def c m)
  moreover have "contents mem v = NDArray (ref_shape v) (data (contents mem v))"
    by (simp add: contents_def)
  ultimately show "contents mem' c = contents mem v" by (simp only:)
qed

lemma contents_frame:
  "base r < length mem \<Longrightarrow> contents (mem @ bufs) r = contents mem r"
  by (simp add: contents_def nth_append)

lemma np_flip_view_ok:
  "list_all (\<lambda>ax. ax < length (ref_shape r)) axes \<Longrightarrow> valid_ref mem r \<Longrightarrow>
   \<exists>v. np_flip_view r axes = Inr v \<and> valid_ref mem v \<and> ref_shape v = ref_shape r
        \<and> base v = base r"
  by (simp add: np_flip_view_def valid_ref_def)

lemma apply_flip_stored_step:
  assumes v: "valid_ref mem arr" and n: "(if nc = 1 then 3 else 4) \<le> length (ref_shape arr)"
  shows "\<exists>c buf. apply_flip_stored nc mem arr = (Inr c, mem @ [buf])
           \<and> base c = length mem \<and> valid_ref (mem @ [buf]) c
           \<and> ref_shape c = ref_shape arr
           \<and> apply_flip nc (contents mem arr) = Inr (contents (mem @ [buf]) c)"
proof -
  let ?axes = "if nc = 1 then [0, 1, 2] else [1, 2, 3::nat]"
  from n have "list_all (\<lambda>ax. ax < length (ref_shape arr)) ?axes" by (auto split: if_splits)
  from np_flip_view_ok [OF this v] obtain fv where
    fv: "np_flip_view arr ?axes = Inr fv" "valid_ref mem fv" "ref_shape fv = ref_shape arr"
    by blast
  obtain c mem' where cp: "ndarray_copy mem fv = (c, mem')" by (cases "ndarray_copy mem fv")
  note cc = contents_copy [OF fv(2) cp]
  have sh: "ref_shape c = ref_shape arr"
    using cp fv(3) by (auto simp: ndarray_copy_def)
  have st: "apply_flip_stored nc mem arr = (Inr c, mem')"
    using fv(1) cp by (simp add: apply_flip_stored_def split: if_splits)
  have "np_flip (contents mem arr) ?axes = Inr (contents mem fv)"
    by (rule contents_np_flip_view [OF v fv(1)])
  then have val: "apply_flip nc (contents mem arr) = Inr (contents mem' c)"
    using cc(1) by (simp add: apply_flip_def split: if_splits)
  from st cc sh val show ?thesis by auto
qed

lemma flat_index_less:
  "valid_index s ix \<Longrightarrow> flat_index s ix < prod_list s"
proof (induction s ix rule: flat_index.induct)
  case (1 n s i ix)
  then have i: "i < n" and r: "flat_index s ix < prod_list s"
    by (simp_all add: valid_index_def)
  from i have "Suc i * prod_list s \<le> n * prod_list s" by (intro mult_le_mono1) simp
  with r show ?case by simp
qed (auto simp: valid_index_def)

lemma valid_mirror_from:
  "valid_index s ix \<Longrightarrow> valid_index s (mirror_from p axes s ix)"
proof (induction p axes s ix rule: mirror_from.induct)
  case (1 p axes n s i ix)
  then show ?case by (auto simp: valid_index_def)
qed (auto simp: valid_index_def)

lemma nth_concat_uniform:
  "\<forall>xs \<in> set xss. length xs = m \<Longrightarrow> i < length xss \<Longrightarrow> k < m \<Longrightarrow>
   concat xss ! (i * m + k) = xss ! i ! k"
proof (induction xss arbitrary: i)
  case Nil
  then show ?case by simp
next
  case (Cons xs xss)
  show ?case
  proof (cases i)
    case 0
    with Cons.prems show ?thesis by (simp add: nth_append)
  next
    case (Suc j)
    with Cons.prems have "concat xss ! (j * m + k) = xss ! j ! k"
      by (intro Cons.IH) auto
    with Suc Cons.prems show ?thesis by (simp add: nth_append)
  qed
qed

lemma nth_chunk:
  "length d = n * m \<Longrightarrow> i < n \<Longrightarrow> k < m \<Longrightarrow> chunk i m d ! k = d ! (i * m + k)"
proof -
  assume a: "length d = n * m" "i < n" "k < m"
  then have "Suc i * m \<le> n * m" by (intro mult_le_mono1) simp
  with a have "i * m + k < length d" by simp
  with a show ?thesis by (simp add: chunk_def)
qed

lemma flip_data_element:
  "length d = prod_list s \<Longrightarrow> valid_index s ix \<Longrightarrow>
   flip_data (map (\<lambda>k. k \<in> set axes) [p..<p + length s]) s d ! flat_index s ix
     = d ! flat_index s (mirror_from p axes s ix)"
proof (induction s arbitrary: p d ix)
  case Nil
  then show ?case by (simp add: valid_index_def)
next
  case (Cons n s)
  from Cons.prems(2) obtain i ix' where ix: "ix = i # ix'" and i: "i < n"
    and v: "valid_index s ix'"
    by (auto simp: valid_index_def list_all2_Cons2)
  let ?m = "prod_list s"
  let ?fs = "map (\<lambda>k. k \<in> set axes) [Suc p..<Suc p + length s]"
  let ?cs = "map (\<lambda>j. flip_data ?fs s (chunk j ?m d)) [0..<n]"
  let ?f = "p \<in> set axes"
  let ?i' = "if ?f then n - 1 - i else i"
  from Cons.prems(1) have len: "length d = n * ?m" by simp
  have flags: "map (\<lambda>k. k \<in> set axes) [p..<p + length (n # s)] = ?f # ?fs"
    by (simp add: upt_conv_Cons del: upt_Suc)
  have clen: "length (chunk j ?m d) = ?m" if "j < n" for j
    using length_chunk [OF that len] .
  have each: "length (flip_data ?fs s (chunk j ?m d)) = ?m" if "j < n" for j
    using length_flip_data [of "chunk j ?m d" s ?fs] clen [OF that] by simp
  then have uni: "\<forall>xs \<in> set ((if ?f then rev else id) ?cs). length xs = ?m" by auto
  from i have i': "?i' < n" by simp
  have k: "flat_index s ix' < ?m" by (rule flat_index_less [OF v])
  have k': "flat_index s (mirror_from (Suc p) axes s ix') < ?m"
    by (rule flat_index_less [OF valid_mirror_from [OF v]])
  have "flip_data (?f # ?fs) (n # s) d ! flat_index (n # s) ix
      = concat ((if ?f then rev else id) ?cs) ! (i * ?m + flat_index s ix')"
    by (simp add: ix Let_def)
  also have "\<dots> = ((if ?f then rev else id) ?cs) ! i ! flat_index s ix'"
    using i k by (intro nth_concat_uniform [OF uni]) simp_all
  also have "((if ?f then rev else id) ?cs) ! i = flip_data ?fs s (chunk ?i' ?m d)"
    using i by (simp add: rev_nth)
  also have "flip_data ?fs s (chunk ?i' ?m d) ! flat_index s ix'
      = chunk ?i' ?m d ! flat_index s (mirror_from (Suc p) axes s ix')"
    using Cons.IH [of "chunk ?i' ?m d" ix' "Suc p"] clen [OF i'] v by simp
  also have "\<dots> = d ! (?i' * ?m + flat_index s (mirror_from (Suc p) axes s ix'))"
    by (rule nth_chunk [OF len i' k'])
  also have "\<dots> = d ! flat_index (n # s) (mirror_from p axes (n # s) ix)"
    by (simp add: ix)
  finally show ?case unfolding flags .
qed

lemma np_flip_element:
  assumes "wf_array a" and "np_flip a axes = Inr b" and "valid_index (shape a) ix"
  shows "element b ix = element a (mirror_index axes (shape a) ix)"
proof -
  from assms(2) have b: "b = NDArray (shape a)
      (flip_data (map (\<lambda>k. k \<in> set axes) [0..<ndim a]) (shape a) (data a))"
    by (auto simp: np_flip_def split: if_splits)
  from assms(1) have "length (data a) = prod_list (shape a)" by (simp add: wf_array_def)
  from flip_data_element [OF this assms(3), of axes 0] show ?thesis
    by (simp add: element_def mirror_index_def b ndim_def)
qed

text \<open>
  Claim C3. For an array object of at least three axes (four when a leading channel axis
  exists), \<open>apply_flip\<close> succeeds and keeps the shape. The element of the result at an
  index is the element of the source at the index mirrored along the axes 0, 1, 2 when the
  channel count is 1 and along the axes 1, 2, 3 otherwise: the last three axes of a volume
  of three axes, and the last three of a volume with a leading channel axis, whose channel
  coordinate stays. Applied to its own result the flip gives back the original array. The
  result owns a new buffer: the source is left as it was, and a write to the buffer of
  either array does not change the other.
\<close>

theorem C3_flip_involution:
  assumes "valid_ref mem arr" and "(if nc = 1 then 3 else 4) \<le> length (ref_shape arr)"
  shows "\<exists>once mem1 twice mem2.
           apply_flip_stored nc mem arr = (Inr once, mem1)
         \<and> apply_flip_stored nc mem1 once = (Inr twice, mem2)
         \<and> contents mem2 twice = contents mem arr
         \<and> apply_flip nc (contents mem arr) = Inr (contents mem1 once)
         \<and> apply_flip nc (contents mem1 once) = Inr (contents mem arr)
         \<and> base once \<noteq> base arr \<and> length mem \<le> base once
         \<and> take (length mem) mem1 = mem
         \<and> (\<forall>buf. contents (mem1[base once := buf]) arr = contents mem arr)
         \<and> (\<forall>buf. contents (mem1[base arr := buf]) once = contents mem1 once)
         \<and> ref_shape once = ref_shape arr
         \<and> (\<forall>ix. valid_index (ref_shape arr) ix \<longrightarrow>
               element (contents mem1 once) ix =
               element (contents mem arr)
                 (mirror_index (if nc = 1 then [0, 1, 2] else [1, 2, 3]) (ref_shape arr) ix))
         \<and> (\<forall>n0 n1 n2 i j k.
               nc = 1 \<and> ref_shape arr = [n0, n1, n2] \<and> i < n0 \<and> j < n1 \<and> k < n2 \<longrightarrow>
               element (contents mem1 once) [i, j, k] =
               element (contents mem arr) [n0 - 1 - i, n1 - 1 - j, n2 - 1 - k])
         \<and> (\<forall>c n0 n1 n2 ch i j k.
               nc \<noteq> 1 \<and> ref_shape arr = [c, n0, n1, n2]
               \<and> ch < c \<and> i < n0 \<and> j < n1 \<and> k < n2 \<longrightarrow>
               element (contents mem1 once) [ch, i, j, k] =
               element (contents mem arr) [ch, n0 - 1 - i, n1 - 1 - j, n2 - 1 - k])"
proof -
  let ?axes = "if nc = 1 then [0, 1, 2] else [1, 2, 3::nat]"
  from apply_flip_stored_step [OF assms] obtain once b1 where
    s1: "apply_flip_stored nc mem arr = (Inr once, mem @ [b1])"
    and o: "base once = length mem" "valid_ref (mem @ [b1]) once"
           "ref_shape once = ref_shape arr"
    and v1: "apply_flip nc (contents mem arr) = Inr (contents (mem @ [b1]) once)"
    by blast
  from assms(2) o(3) have "(if nc = 1 then 3 else 4) \<le> length (ref_shape once)" by simp
  from apply_flip_stored_step [OF o(2) this] obtain twice b2 where
    s2: "apply_flip_stored nc (mem @ [b1]) once = (Inr twice, (mem @ [b1]) @ [b2])"
    and v2: "apply_flip nc (contents (mem @ [b1]) once) = Inr (contents ((mem @ [b1]) @ [b2]) twice)"
    by blast
  from assms(1) have ba: "base arr < length mem" by (simp add: valid_ref_def)
  have undo: "apply_flip nc (contents (mem @ [b1]) once) = Inr (contents mem arr)"
    using v1 np_flip_twice [OF wf_contents [OF assms(1)]]
    by (simp add: apply_flip_def split: if_splits)
  with v2 have rt: "contents ((mem @ [b1]) @ [b2]) twice = contents mem arr" by simp
  have f1: "contents ((mem @ [b1])[base once := buf]) arr = contents mem arr" for buf
    using ba o(1) by (simp add: contents_def nth_append)
  have f2: "contents ((mem @ [b1])[base arr := buf]) once = contents (mem @ [b1]) once" for buf
    using ba o(1) by (simp add: contents_def nth_append list_update_append)
  have sh: "shape (contents mem arr) = ref_shape arr" by (simp add: contents_def)
  from v1 have fl: "np_flip (contents mem arr) ?axes = Inr (contents (mem @ [b1]) once)"
    by (simp add: apply_flip_def split: if_splits)
  have el: "element (contents (mem @ [b1]) once) ix =
            element (contents mem arr) (mirror_index ?axes (ref_shape arr) ix)"
    if "valid_index (ref_shape arr) ix" for ix
    using np_flip_element [OF wf_contents [OF assms(1)] fl] that sh by simp
  have el3: "element (contents (mem @ [b1]) once) [i, j, k] =
             element (contents mem arr) [n0 - 1 - i, n1 - 1 - j, n2 - 1 - k]"
    if "nc = 1" "ref_shape arr = [n0, n1, n2]" "i < n0" "j < n1" "k < n2" for n0 n1 n2 i j k
    using el [of "[i, j, k]"] that by (simp add: valid_index_def mirror_index_def)
  have el4: "element (contents (mem @ [b1]) once) [ch, i, j, k] =
             element (contents mem arr) [ch, n0 - 1 - i, n1 - 1 - j, n2 - 1 - k]"
    if "nc \<noteq> 1" "ref_shape arr = [c, n0, n1, n2]" "ch < c" "i < n0" "j < n1" "k < n2"
    for c n0 n1 n2 ch i j k
    using el [of "[ch, i, j, k]"] that by (simp add: valid_index_def mirror_index_def)
  have old: "apply_flip_stored nc mem arr = (Inr once, mem @ [b1])
         \<and> apply_flip_stored nc (mem @ [b1]) once = (Inr twice, (mem @ [b1]) @ [b2])
         \<and> contents ((mem @ [b1]) @ [b2]) twice = contents mem arr
         \<and> apply_flip nc (contents mem arr) = Inr (contents (mem @ [b1]) once)
         \<and> apply_flip nc (contents (mem @ [b1]) once) = Inr (contents mem arr)
         \<and> base once \<noteq> base arr \<and> length mem \<le> base once
         \<and> take (length mem) (mem @ [b1]) = mem
         \<and> (\<forall>buf. contents ((mem @ [b1])[base once := buf]) arr = contents mem arr)
         \<and> (\<forall>buf. contents ((mem @ [b1])[base arr := buf]) once = contents (mem @ [b1]) once)"
    using s1 s2 rt v1 undo ba o(1) f1 f2 by simp
  show ?thesis
    by (rule exI [of _ once], rule exI [of _ "mem @ [b1]"], rule exI [of _ twice],
        rule exI [of _ "(mem @ [b1]) @ [b2]"])
       (use old o(3) el el3 el4 in blast)
qed

theorem C3_flip_involution_witness:
  "valid_ref [[1, 2, 3, 4, 5, 6, 7, 8 :: int]]
     \<lparr>base = 0, offset = 0, ref_shape = [2, 2, 2], reversed = [False, False, False]\<rparr>
   \<and> apply_flip_stored 1 [[1, 2, 3, 4, 5, 6, 7, 8 :: int]]
       \<lparr>base = 0, offset = 0, ref_shape = [2, 2, 2], reversed = [False, False, False]\<rparr>
     = (Inr \<lparr>base = 1, offset = 0, ref_shape = [2, 2, 2], reversed = [False, False, False]\<rparr>,
        [[1, 2, 3, 4, 5, 6, 7, 8], [8, 7, 6, 5, 4, 3, 2, 1]])
   \<and> apply_flip_stored 1 [[1, 2, 3, 4, 5, 6, 7, 8 :: int], [8, 7, 6, 5, 4, 3, 2, 1]]
       \<lparr>base = 1, offset = 0, ref_shape = [2, 2, 2], reversed = [False, False, False]\<rparr>
     = (Inr \<lparr>base = 2, offset = 0, ref_shape = [2, 2, 2], reversed = [False, False, False]\<rparr>,
        [[1, 2, 3, 4, 5, 6, 7, 8], [8, 7, 6, 5, 4, 3, 2, 1], [1, 2, 3, 4, 5, 6, 7, 8]])
   \<and> valid_ref [[1, 2, 3, 4, 5, 6 :: int]]
     \<lparr>base = 0, offset = 0, ref_shape = [2, 3, 1, 1], reversed = [False, False, False, False]\<rparr>
   \<and> apply_flip_stored 3 [[1, 2, 3, 4, 5, 6 :: int]]
       \<lparr>base = 0, offset = 0, ref_shape = [2, 3, 1, 1], reversed = [False, False, False, False]\<rparr>
     = (Inr \<lparr>base = 1, offset = 0, ref_shape = [2, 3, 1, 1],
              reversed = [False, False, False, False]\<rparr>,
        [[1, 2, 3, 4, 5, 6], [3, 2, 1, 6, 5, 4]])
   \<and> apply_flip_stored 3 [[1, 2, 3, 4, 5, 6 :: int], [3, 2, 1, 6, 5, 4]]
       \<lparr>base = 1, offset = 0, ref_shape = [2, 3, 1, 1], reversed = [False, False, False, False]\<rparr>
     = (Inr \<lparr>base = 2, offset = 0, ref_shape = [2, 3, 1, 1],
              reversed = [False, False, False, False]\<rparr>,
        [[1, 2, 3, 4, 5, 6], [3, 2, 1, 6, 5, 4], [1, 2, 3, 4, 5, 6]])"
proof -
  let ?M = "[[1, 2, 3, 4, 5, 6, 7, 8 :: int]]"
  let ?A = "\<lparr>base = 0, offset = 0, ref_shape = [2, 2, 2], reversed = [False, False, False]\<rparr>"
  let ?N = "[[1, 2, 3, 4, 5, 6 :: int]]"
  let ?B = "\<lparr>base = 0, offset = 0, ref_shape = [2, 3, 1, 1],
             reversed = [False, False, False, False]\<rparr>"
  have u: "[0..<2] = [0, Suc 0]" "[0..<3] = [0, 1, 2]" "[0..<4] = [0, 1, 2, 3]"
    "[0..<Suc 0] = [0]"
    by (simp_all add: upt_conv_Cons)
  have h1: "valid_ref ?M ?A" by (simp add: valid_ref_def)
  have h2: "(if (1::int) = 1 then 3 else 4) \<le> length (ref_shape ?A)" by simp
  have e1: "apply_flip_stored 1 ?M ?A
     = (Inr \<lparr>base = 1, offset = 0, ref_shape = [2, 2, 2], reversed = [False, False, False]\<rparr>,
        [[1, 2, 3, 4, 5, 6, 7, 8], [8, 7, 6, 5, 4, 3, 2, 1]])"
    by (simp add: apply_flip_stored_def np_flip_view_def ndarray_copy_def contents_def
          Let_def chunk_def u)
  from C3_flip_involution [OF h1 h2] have
    "\<exists>once mem1 twice mem2. apply_flip_stored 1 ?M ?A = (Inr once, mem1)
        \<and> apply_flip_stored 1 mem1 once = (Inr twice, mem2)"
    by (elim exE conjE) (intro exI conjI, assumption+)
  then obtain once mem1 twice mem2 where
    a: "apply_flip_stored 1 ?M ?A = (Inr once, mem1)"
    and b: "apply_flip_stored 1 mem1 once = (Inr twice, mem2)"
    by blast
  from a e1 have o: "once = \<lparr>base = 1, offset = 0, ref_shape = [2, 2, 2], reversed = [False, False, False]\<rparr>"
     "mem1 = [[1, 2, 3, 4, 5, 6, 7, 8], [8, 7, 6, 5, 4, 3, 2, 1]]" by simp_all
  have e2: "apply_flip_stored 1 [[1, 2, 3, 4, 5, 6, 7, 8 :: int], [8, 7, 6, 5, 4, 3, 2, 1]]
       \<lparr>base = 1, offset = 0, ref_shape = [2, 2, 2], reversed = [False, False, False]\<rparr>
     = (Inr \<lparr>base = 2, offset = 0, ref_shape = [2, 2, 2], reversed = [False, False, False]\<rparr>,
        [[1, 2, 3, 4, 5, 6, 7, 8], [8, 7, 6, 5, 4, 3, 2, 1], [1, 2, 3, 4, 5, 6, 7, 8]])"
    by (simp add: apply_flip_stored_def np_flip_view_def ndarray_copy_def contents_def
          Let_def chunk_def u)
  have k1: "valid_ref ?N ?B" by (simp add: valid_ref_def)
  have k2: "(if (3::int) = 1 then 3 else 4) \<le> length (ref_shape ?B)" by simp
  have g1: "apply_flip_stored 3 ?N ?B
     = (Inr \<lparr>base = 1, offset = 0, ref_shape = [2, 3, 1, 1],
              reversed = [False, False, False, False]\<rparr>,
        [[1, 2, 3, 4, 5, 6], [3, 2, 1, 6, 5, 4]])"
    by (simp add: apply_flip_stored_def np_flip_view_def ndarray_copy_def contents_def
          Let_def chunk_def u)
  from C3_flip_involution [OF k1 k2] have
    "\<exists>once mem1 twice mem2. apply_flip_stored 3 ?N ?B = (Inr once, mem1)
        \<and> apply_flip_stored 3 mem1 once = (Inr twice, mem2)"
    by (elim exE conjE) (intro exI conjI, assumption+)
  then obtain once' mem1' twice' mem2' where
    a': "apply_flip_stored 3 ?N ?B = (Inr once', mem1')"
    and b': "apply_flip_stored 3 mem1' once' = (Inr twice', mem2')"
    by blast
  have g2: "apply_flip_stored 3 [[1, 2, 3, 4, 5, 6 :: int], [3, 2, 1, 6, 5, 4]]
       \<lparr>base = 1, offset = 0, ref_shape = [2, 3, 1, 1], reversed = [False, False, False, False]\<rparr>
     = (Inr \<lparr>base = 2, offset = 0, ref_shape = [2, 3, 1, 1],
              reversed = [False, False, False, False]\<rparr>,
        [[1, 2, 3, 4, 5, 6], [3, 2, 1, 6, 5, 4], [1, 2, 3, 4, 5, 6]])"
    by (simp add: apply_flip_stored_def np_flip_view_def ndarray_copy_def contents_def
          Let_def chunk_def u)
  from h1 e1 e2 b o k1 g1 g2 b' show ?thesis by simp
qed

section \<open>The class: properties\<close>

lemma init_labels:
  assumes "DatasetGenerator_init lib args w = (Inr self, w')"
  shows "labels self = fst (expand_index (arg_to_augment args) (arg_augment_types args)
                              (arg_labels args) (arg_data_indices args))"
  using assms
  by (auto simp: DatasetGenerator_init_def Let_def split: sum.splits prod.splits if_splits)

text \<open>
  Claim C1. Construction with augmentation enabled and non-empty, distinct kinds \<open>K\<close>
  replaces the label table \<open>L\<close> by the original block followed by one suffixed copy per kind,
  in the order of \<open>K\<close>; its length, as \<open>__len__\<close> reports it, is \<open>(1 + |K|) * |L|\<close>; and
  for every row \<open>(I, l)\<close> of \<open>L\<close> and every kind \<open>k\<close> it holds both \<open>(I, l)\<close> and
  \<open>(I_k, l)\<close>.
\<close>

theorem C1_index_expansion:
  assumes "arg_to_augment args"
    and "arg_augment_types args \<noteq> []" and "distinct (arg_augment_types args)"
    and "DatasetGenerator_init lib args w = (Inr self, w')"
  shows "DatasetGenerator_len self = (1 + length (arg_augment_types args)) * length (arg_labels args)
       \<and> labels self =
           arg_labels args @ concat (map (suffixed_copy (arg_labels args)) (arg_augment_types args))
       \<and> (\<forall>(I, l) \<in> set (arg_labels args). \<forall>k \<in> set (arg_augment_types args).
            (I, l) \<in> set (labels self) \<and> (I @ ''_'' @ k, l) \<in> set (labels self))"
proof -
  have eq: "labels self = fst (expand_index True (arg_augment_types args)
                              (arg_labels args) (arg_data_indices args))"
    using init_labels [OF assms(4)] assms(1) by simp
  show ?thesis
    unfolding DatasetGenerator_len_def eq
    by (rule expand_index_correct [OF assms(2,3)])
qed

theorem C1_index_expansion_witness:
  "(case DatasetGenerator_init example_library
          ((default_args [''A_1'', ''B_2''] [(''A_1'', 0::int), (''B_2'', 1)])
             \<lparr>arg_to_augment := True, arg_augment_types := [''noise'', ''flip'']\<rparr>)
          example_world of
      (Inl e, w) \<Rightarrow> False
    | (Inr self, w) \<Rightarrow>
        DatasetGenerator_len self = 6
      \<and> labels self =
          [(''A_1'', 0), (''B_2'', 1), (''A_1_noise'', 0), (''B_2_noise'', 1),
           (''A_1_flip'', 0), (''B_2_flip'', 1)])"
proof -
  let ?args = "(default_args [''A_1'', ''B_2''] [(''A_1'', 0::int), (''B_2'', 1)])
             \<lparr>arg_to_augment := True, arg_augment_types := [''noise'', ''flip'']\<rparr>"
  obtain self w where
    init: "DatasetGenerator_init example_library ?args example_world = (Inr self, w)"
    by (simp add: DatasetGenerator_init_def default_args_def expand_index_def Let_def
          split: prod.splits)
  have h: "arg_to_augment ?args" "arg_augment_types ?args \<noteq> []"
    "distinct (arg_augment_types ?args)"
    by simp_all
  from C1_index_expansion [OF h init] init show ?thesis
    by (simp add: default_args_def suffixed_copy_def)
qed

lemma then_w_Inr [simp]: "then_w (Inr x, w) f = f x w"
  by (simp add: then_w_def)

lemma then_w_Inl [simp]: "then_w (Inl e, w) f = (Inl e, w)"
  by (simp add: then_w_def)

lemma then_w_unit: "then_w rw (\<lambda>x w. (Inr x, w)) = rw"
  by (cases rw) (auto simp: then_w_def split: sum.splits)

lemma run_transformations_fun:
  "run_transformations lib self [] = (\<lambda>arr w. (Inr arr, w))"
  "run_transformations lib self (t # ts) =
     (\<lambda>arr w. then_w (apply_transformation lib self t arr w) (run_transformations lib self ts))"
  by (rule ext, rule ext, simp)+

lemma augment_as_run:
  "augment lib self pat_idx arr w =
     (if last (split_us pat_idx) \<in> set (augment_types self)
      then run_transformations lib self (applicable (last (split_us pat_idx))) arr w
      else (Inr arr, w))"
proof (cases "last (split_us pat_idx) \<in> set (augment_types self)")
  case False
  then show ?thesis by (simp add: augment_def routed_def)
next
  case True
  let ?seg = "last (split_us pat_idx)"
  have "augment lib self pat_idx arr w = run_transformations lib self (applicable ?seg) arr w"
    using True
    by (cases "str_contains ''flip'' ?seg"; cases "str_contains ''rotate'' ?seg";
        cases "str_contains ''noise'' ?seg"; cases "str_contains ''deform'' ?seg")
       (simp_all add: augment_def routed_def applicable_def Let_def then_w_unit
          run_transformations_fun)
  with True show ?thesis by simp
qed

text \<open>
  Claim C6, as amended. In both loaders the array is routed to the augmentations exactly
  when the final segment of the identifier is one of the configured kinds (membership in
  the collection, not a substring match); once routed, each of flip, rotate, noise, deform
  applies when its name occurs in that segment, and those that apply run in this order,
  the first one to raise ending the step.
\<close>

theorem C6_routing:
  "augment lib self pat_idx arr w =
     (if last (split_us pat_idx) \<in> set (augment_types self)
      then run_transformations lib self (applicable (last (split_us pat_idx))) arr w
      else (Inr arr, w))"
  by (rule augment_as_run)

text \<open>
  Claim C6 as stated fails. With the kinds \<open>('flips', 'fl')\<close> the segment \<open>flip\<close> of the
  identifier \<open>P_1_flip\<close> contains a kind and is contained in one, and the name \<open>flip\<close>
  occurs in it, yet the array is not routed: it comes back unflipped.
\<close>

theorem C6_routing_counterexample:
  "(case DatasetGenerator_init example_library
          ((default_args [''P_1_flip''] [(''P_1_flip'', 0::int)])
             \<lparr>arg_n_channels := 1, arg_to_augment := True,
              arg_augment_types := [''flips'', ''fl'']\<rparr>) example_world of
      (Inl e, w) \<Rightarrow> False
    | (Inr self, w) \<Rightarrow>
        index_of (labels self) = [''P_1_flip'', ''P_1_flip_flips'', ''P_1_flip_fl'']
      \<and> kind_in_segment (augment_types self) ''P_1_flip''
      \<and> segment_in_kind (augment_types self) ''P_1_flip''
      \<and> str_contains ''flip'' (last (split_us ''P_1_flip''))
      \<and> \<not> routed (augment_types self) ''P_1_flip''
      \<and> augment example_library self ''P_1_flip'' (NDArray [2, 1, 1] [7, 8]) w
          = (Inr (NDArray [2, 1, 1] [7, 8]), w)
      \<and> apply_flip (n_channels self) (NDArray [2, 1, 1] [7, 8])
          = Inr (NDArray [2, 1, 1] [8, 7]))"
  by (simp add: DatasetGenerator_init_def default_args_def example_library_def
        example_world_def expand_index_def suffixed_copy_def dict_values_def index_of_def
        kind_in_segment_def segment_in_kind_def routed_def augment_def
        apply_flip_def np_flip_def ndim_def chunk_def Let_def upt_conv_Cons)

lemma bind_e_Inr [simp]: "bind_e (Inr x) f = f x"
  by (simp add: bind_e_def)

lemma bind_e_Inl [simp]: "bind_e (Inl e) f = Inl e"
  by (simp add: bind_e_def)

lemma split_us_not_Nil [simp]: "split_us s \<noteq> []"
  by (induction s) (auto split: list.splits)

lemma split_us_append:
  "split_us (a @ CHR ''_'' # b) = split_us a @ split_us b"
  by (induction a) (auto split: list.splits)

lemma split_us_plain:
  "CHR ''_'' \<notin> set s \<Longrightarrow> split_us s = [s]"
  by (induction s) (auto split: list.splits)

lemma join_us_split_us: "join_us (split_us s) = s"
proof (induction s)
  case Nil
  then show ?case by simp
next
  case (Cons c s)
  obtain w ws where sp: "split_us s = w # ws" by (cases "split_us s") auto
  show ?case
  proof (cases "c = CHR ''_''")
    case True
    with Cons sp show ?thesis by simp
  next
    case False
    with Cons sp show ?thesis by (cases ws) auto
  qed
qed

lemma split_us_suffix:
  assumes "CHR ''_'' \<notin> set k"
  shows "split_us (I @ ''_'' @ k) = split_us I @ [k]"
  using split_us_append [of I k] split_us_plain [OF assms] by simp

lemma wf_getitem_int:
  assumes "wf_array v" and "getitem_int v i = Inr x"
  shows "wf_array x"
proof -
  from assms(2) obtain n s where sh: "shape v = n # s" and i: "i < n"
    and x: "x = NDArray s (chunk i (prod_list s) (data v))"
    by (auto simp: getitem_int_def split: list.splits if_splits)
  from assms(1) sh have "length (data v) = n * prod_list s" by (simp add: wf_array_def)
  from length_chunk [OF i this] show ?thesis by (simp add: wf_array_def x)
qed

lemma np_flip_expand_dims0:
  assumes "wf_array x"
  shows "np_flip (expand_dims0 x) [1, 2, 3] = map_sum id expand_dims0 (np_flip x [0, 1, 2])"
proof -
  let ?n = "ndim x"
  have flags: "map (\<lambda>k. k \<in> set [1, 2, 3::nat]) [0..<Suc ?n]
             = False # map (\<lambda>k. k \<in> set [0, 1, 2::nat]) [0..<?n]"
  proof -
    have "[0..<Suc ?n] = 0 # map Suc [0..<?n]"
      by (simp add: upt_conv_Cons map_Suc_upt del: upt_Suc)
    then show ?thesis by (auto simp: comp_def)
  qed
  from assms have len: "length (data x) = prod_list (shape x)" by (simp add: wf_array_def)
  have one: "flip_data (False # fs) (1 # shape x) (data x) = flip_data fs (shape x) (data x)" for fs
    using len by (simp add: chunk_def)
  have c1: "list_all (\<lambda>ax. ax < ?n) [0, 1, 2] = (3 \<le> ?n)" by auto
  have c2: "list_all (\<lambda>ax. ax < ndim (expand_dims0 x)) [1, 2, 3] = (3 \<le> ?n)"
    by (auto simp: ndim_def expand_dims0_def)
  have sh: "shape (expand_dims0 x) = 1 # shape x" "data (expand_dims0 x) = data x"
    "ndim (expand_dims0 x) = Suc ?n"
    by (simp_all add: expand_dims0_def ndim_def)
  show ?thesis
  proof (cases "3 \<le> ?n")
    case True
    have "np_flip (expand_dims0 x) [1, 2, 3] =
          Inr (NDArray (1 # shape x)
            (flip_data (False # map (\<lambda>k. k \<in> set [0, 1, 2::nat]) [0..<?n]) (1 # shape x) (data x)))"
      unfolding np_flip_def c2 sh flags using True by simp
    also have "\<dots> = Inr (expand_dims0 (NDArray (shape x)
            (flip_data (map (\<lambda>k. k \<in> set [0, 1, 2::nat]) [0..<?n]) (shape x) (data x))))"
      by (simp only: one expand_dims0_def ndarray.sel)
    also have "\<dots> = map_sum id expand_dims0 (np_flip x [0, 1, 2])"
      unfolding np_flip_def c1 using True by simp
    finally show ?thesis .
  next
    case False
    have "np_flip (expand_dims0 x) [1, 2, 3] = Inl AxisError"
      unfolding np_flip_def c2 using False by simp
    moreover have "np_flip x [0, 1, 2] = Inl AxisError"
      unfolding np_flip_def c1 using False by simp
    ultimately show ?thesis by simp
  qed
qed

lemma scenario_init:
  "DatasetGenerator_init lib (scenario_args I l) w0 = (Inr self, w1) \<Longrightarrow>
   labels self = [(I, l), (I @ ''_flip'', l)] \<and> n_channels self = 1 \<and> modality self = [''FLAIR'']
   \<and> to_augment self \<and> augment_types self = [''flip''] \<and> \<not> to_sectionate self
   \<and> transform self = None \<and> target_transform self = None
   \<and> data_dir self = ''../../data/upenn_GBM/images/NIfTI-files/''"
  by (auto simp: DatasetGenerator_init_def scenario_args_def default_args_def expand_index_def
        suffixed_copy_def dict_values_def Let_def)

text \<open>
  Claim C7, as amended. In the scenario with a base identifier \<open>I\<close> of exactly two segments
  (the second one not \<open>flip\<close> itself), the expanded table holds \<open>I\<close> and \<open>I_flip\<close>, and item
  access at the position of \<open>I_flip\<close> returns what item access at the position of \<open>I\<close>
  returns, mirrored along the three spatial axes, with the same label; it raises where the
  access at \<open>I\<close> raises.
\<close>

theorem C7_flip_scenario:
  assumes two: "length (split_us I) = 2"
    and last: "last (split_us I) \<noteq> ''flip''"
    and files: "\<forall>p v. fs p = Some v \<longrightarrow> wf_array v"
    and init: "DatasetGenerator_init lib (scenario_args I l) w0 = (Inr self, w1)"
  shows "index_of (labels self) = [I, I @ ''_flip'']
       \<and> DatasetGenerator_getitem lib fs self 1 w =
           (bind_e (fst (DatasetGenerator_getitem lib fs self 0 w)) (\<lambda>(tensor, label).
              bind_e (np_flip tensor [1, 2, 3]) (\<lambda>flipped. Inr (flipped, label))), w)"
proof -
  note s = scenario_init [OF init]
  let ?path = "os_path_join (data_dir self) (I @ ''_FLAIR.npy'')"
  let ?sel = "bind_e (np_load fs ?path) (select_channels 1)"
  have sp: "split_us (I @ ''_flip'') = split_us I @ [''flip'']"
    using split_us_suffix [of "''flip''" I] by simp
  have ne: "I @ ''_flip'' \<noteq> I" by simp
  have fn0: "file_name self I ''FLAIR'' = I @ ''_FLAIR.npy''"
    using s two by (simp add: file_name_def)
  have "take 2 (split_us I @ [''flip'']) = split_us I" using two by simp
  then have fn1: "file_name self (I @ ''_flip'') ''FLAIR'' = I @ ''_FLAIR.npy''"
    using s two sp join_us_split_us [of I] by (simp add: file_name_def)
  have r0: "\<not> routed (augment_types self) I" using s last by (simp add: routed_def)
  have g0: "get_pat_array lib fs self I w = (?sel, w)"
    using s fn0 r0
    by (cases ?sel) (simp_all add: get_pat_array_def py_index_def augment_def Let_def)
  have a1: "augment lib self (I @ ''_flip'') x w = (apply_flip 1 x, w)" for x
    using s sp by (cases "apply_flip 1 x") (simp_all add: augment_def routed_def Let_def)
  have g1: "get_pat_array lib fs self (I @ ''_flip'') w = (bind_e ?sel (apply_flip 1), w)"
    using s fn1 a1
    by (cases ?sel; cases "apply_flip 1 (projr ?sel)")
       (simp_all add: get_pat_array_def py_index_def Let_def)
  have i0: "DatasetGenerator_getitem lib fs self 0 w =
            (bind_e ?sel (\<lambda>x. Inr (expand_dims0 x, [l])), w)"
    using s g0 ne
    by (cases ?sel)
       (simp_all add: DatasetGenerator_getitem_def py_index_def index_of_def loc_label_def
          Let_def)
  have i1: "DatasetGenerator_getitem lib fs self 1 w =
            (bind_e ?sel (\<lambda>x. bind_e (apply_flip 1 x) (\<lambda>fx. Inr (expand_dims0 fx, [l]))), w)"
    using s g1 ne
    by (cases ?sel; cases "apply_flip 1 (projr ?sel)")
       (simp_all add: DatasetGenerator_getitem_def py_index_def index_of_def loc_label_def
          Let_def)
  have wfx: "wf_array x" if "?sel = Inr x" for x
  proof -
    from that obtain v where "fs ?path = Some v" and "getitem_int v 3 = Inr x"
      by (auto simp: bind_e_def np_load_def select_channels_def split: option.splits sum.splits)
    with files wf_getitem_int show ?thesis by blast
  qed
  have "bind_e ?sel (\<lambda>x. bind_e (apply_flip 1 x) (\<lambda>fx. Inr (expand_dims0 fx, [l]))) =
        bind_e (bind_e ?sel (\<lambda>x. Inr (expand_dims0 x, [l]))) (\<lambda>(tensor, label).
              bind_e (np_flip tensor [1, 2, 3]) (\<lambda>flipped. Inr (flipped, label)))"
  proof (cases ?sel)
    case (Inl e)
    then show ?thesis by (simp add: bind_e_def)
  next
    case (Inr x)
    from np_flip_expand_dims0 [OF wfx [OF Inr]] Inr show ?thesis
      by (cases "np_flip x [0, 1, 2]") (simp_all add: bind_e_def apply_flip_def)
  qed
  with i0 i1 s show ?thesis by (simp add: index_of_def)
qed

lemmas run_defs =
  DatasetGenerator_init_def DatasetGenerator_getitem_def get_pat_array_def
  default_args_def scenario_args_def example_library_def example_world_def example_files_def
  expand_index_def suffixed_copy_def dict_values_def index_of_def loc_label_def
  py_index_def file_name_def os_path_join_def np_load_def select_channels_def
  getitem_int_def getitem_list_def getitem_slice_def chunk_def
  augment_def routed_def apply_flip_def np_flip_def ndim_def expand_dims0_def
  np_reshape_def Let_def

text \<open>
  Claim C7 as stated fails: \<open>P001_flip\<close> has two segments, not three, so the suffix is not
  dropped and the file looked for is the one of the virtual identifier, which does not exist.
\<close>

theorem C7_flip_scenario_counterexample:
  "(case DatasetGenerator_init example_library (scenario_args ''P001'' (1::int)) example_world of
      (Inl e, w) \<Rightarrow> False
    | (Inr self, w) \<Rightarrow>
        index_of (labels self) = [''P001'', ''P001_flip'']
      \<and> fst (DatasetGenerator_getitem example_library (example_files ''P001_FLAIR.npy'') self 0 w)
          = Inr (NDArray [1, 2, 1, 1] [7, 8], [1])
      \<and> fst (DatasetGenerator_getitem example_library (example_files ''P001_FLAIR.npy'') self 1 w)
          = Inl (FileNotFoundError
                  ''../../data/upenn_GBM/images/NIfTI-files/P001_flip_FLAIR.npy''))"
  by (simp add: run_defs)

theorem C7_flip_scenario_witness:
  "length (split_us ''P001_11'') = 2 \<and> last (split_us ''P001_11'') \<noteq> ''flip''
   \<and> (case DatasetGenerator_init example_library (scenario_args ''P001_11'' (1::int))
             example_world of
        (Inl e, w) \<Rightarrow> False
      | (Inr self, w) \<Rightarrow>
          index_of (labels self) = [''P001_11'', ''P001_11_flip'']
        \<and> fst (DatasetGenerator_getitem example_library (example_files ''P001_11_FLAIR.npy'')
                 self 0 w) = Inr (NDArray [1, 2, 1, 1] [7, 8], [1])
        \<and> fst (DatasetGenerator_getitem example_library (example_files ''P001_11_FLAIR.npy'')
                 self 1 w) = Inr (NDArray [1, 2, 1, 1] [8, 7], [1]))"
proof -
  let ?fs = "example_files ''P001_11_FLAIR.npy''"
  obtain self w1 where
    init: "DatasetGenerator_init example_library (scenario_args ''P001_11'' (1::int)) example_world
             = (Inr self, w1)"
    by (simp add: DatasetGenerator_init_def scenario_args_def default_args_def
          expand_index_def Let_def split: prod.splits)
  have h1: "length (split_us ''P001_11'') = 2" by simp
  have h2: "last (split_us ''P001_11'') \<noteq> ''flip''" by simp
  have h3: "\<forall>p v. ?fs p = Some v \<longrightarrow> wf_array v"
    by (simp add: example_files_def wf_array_def)
  note c = C7_flip_scenario [OF h1 h2 h3 init, of w1]
  note s = scenario_init [OF init]
  have e0: "DatasetGenerator_getitem example_library ?fs self 0 w1
            = (Inr (NDArray [1, 2, 1, 1] [7, 8], [1]), w1)"
    using s by (simp add: run_defs)
  have fl: "np_flip (NDArray [1, 2, 1, 1] [7, 8::int]) [1, 2, 3] = Inr (NDArray [1, 2, 1, 1] [8, 7])"
    by (simp add: np_flip_def ndim_def chunk_def Let_def upt_conv_Cons)
  from c e0 fl have e1: "DatasetGenerator_getitem example_library ?fs self 1 w1
            = (Inr (NDArray [1, 2, 1, 1] [8, 7], [1]), w1)"
    by simp
  from h1 h2 init c e0 e1 show ?thesis by simp
qed

lemma then_w_Inr_iff:
  "then_w rw f = (Inr y, w') \<longleftrightarrow> (\<exists>x w1. rw = (Inr x, w1) \<and> f x w1 = (Inr y, w'))"
  by (cases rw) (auto simp: then_w_def split: sum.splits)

lemma prod_list_pos: "\<forall>d \<in> set ds. 0 < d \<Longrightarrow> 0 < prod_list (map nat ds)"
  by (induction ds) simp_all

lemma np_reshape_positive:
  assumes "\<forall>d \<in> set ds. 0 < d"
  shows "np_reshape a ds =
           (if prod_list (map nat ds) = length (data a) then Inr (NDArray (map nat ds) (data a))
            else Inl ValueError)"
proof -
  from assms have "filter (\<lambda>x. x < 0) ds = []" by (auto simp: filter_empty_conv)
  moreover from assms have "filter (\<lambda>x. 0 \<le> x) ds = ds" by (auto simp: filter_id_conv)
  ultimately show ?thesis by (simp add: np_reshape_def Let_def)
qed

lemma reshape_twice_fails:
  assumes pos: "\<forall>d \<in> set ds. 0 < d" and nc: "1 < nc"
    and r: "np_reshape x (ds @ [nc]) = Inr a"
  shows "np_reshape a ds = Inl ValueError"
proof -
  let ?P = "prod_list (map nat ds)"
  from pos nc have pos': "\<forall>d \<in> set (ds @ [nc]). 0 < d" by auto
  from r have a: "a = NDArray (map nat (ds @ [nc])) (data x)"
    and size: "?P * nat nc = length (data x)"
    unfolding np_reshape_positive [OF pos'] by (auto split: if_splits)
  from prod_list_pos [OF pos] nc have "?P \<noteq> ?P * nat nc" by simp
  with size a show ?thesis
    unfolding np_reshape_positive [OF pos] by simp
qed

lemma get_pat_array_sectionated:
  assumes "to_sectionate self" and "n_channels self \<noteq> 1"
    and "get_pat_array lib fs self pat_idx w = (Inr a, w')"
  shows "\<exists>x. np_reshape x (dim self @ [n_channels self]) = Inr a"
  using assms by (auto simp: get_pat_array_def then_w_Inr_iff)

text \<open>
  Claim C10, as amended. With a single modality, sectionation enabled, a channel count above
  1 and spatial dimensions that are all positive, no item access returns a tensor: when
  the identifier is found and the loader returns (its own reshape to \<open>dim\<close> with a trailing channel axis
  having succeeded), the reshape to \<open>dim\<close> in \<open>__getitem__\<close> raises the shape-mismatch
  error, the element counts differing by the channel factor; otherwise the access has
  raised before.
\<close>

theorem C10_sectionate_multichannel_fails:
  assumes "length (modality self) < 2" and "to_sectionate self" and "1 < n_channels self"
    and "\<forall>d \<in> set (dim self). 0 < d"
  shows "(\<exists>e w'. DatasetGenerator_getitem lib fs self idx w = (Inl e, w'))
       \<and> (\<forall>pat_idx a w'. get_pat_array lib fs self pat_idx w = (Inr a, w')
            \<longrightarrow> np_reshape a (dim self) = Inl ValueError)
       \<and> (\<forall>pat_idx a w'. py_index (index_of (labels self)) idx = Inr pat_idx
              \<and> get_pat_array lib fs self pat_idx w = (Inr a, w')
            \<longrightarrow> DatasetGenerator_getitem lib fs self idx w = (Inl ValueError, w'))"
proof -
  have second: "np_reshape a (dim self) = Inl ValueError"
    if "get_pat_array lib fs self pat_idx w = (Inr a, w')" for pat_idx a w'
  proof -
    from assms(3) have "n_channels self \<noteq> 1" by simp
    from get_pat_array_sectionated [OF assms(2) this that] obtain x where
      "np_reshape x (dim self @ [n_channels self]) = Inr a" ..
    from reshape_twice_fails [OF assms(4,3) this] show ?thesis .
  qed
  have third: "DatasetGenerator_getitem lib fs self idx w = (Inl ValueError, w')"
    if "py_index (index_of (labels self)) idx = Inr pat_idx"
      "get_pat_array lib fs self pat_idx w = (Inr a, w')" for pat_idx a w'
    using that second [OF that(2)] assms(1,2)
    by (simp add: DatasetGenerator_getitem_def Let_def)
  have first: "\<exists>e w'. DatasetGenerator_getitem lib fs self idx w = (Inl e, w')"
  proof (cases "py_index (index_of (labels self)) idx")
    case (Inl e)
    then show ?thesis by (simp add: DatasetGenerator_getitem_def)
  next
    case (Inr pat_idx)
    obtain r w' where g: "get_pat_array lib fs self pat_idx w = (r, w')"
      by (cases "get_pat_array lib fs self pat_idx w")
    show ?thesis
    proof (cases r)
      case (Inl e)
      with g Inr assms(1) show ?thesis by (simp add: DatasetGenerator_getitem_def Let_def)
    next
      case (Inr a)
      with g third \<open>py_index (index_of (labels self)) idx = Inr pat_idx\<close> show ?thesis by blast
    qed
  qed
  from first second third show ?thesis by blast
qed

text \<open>
  Claim C10 as stated fails for spatial dimensions that are not all positive. With
  \<open>dim = (-1, 1, 1)\<close> both reshapes infer the first extent and the access returns a tensor
  of shape \<open>(6, 1, 1)\<close>; with \<open>dim = (0, 86, 86)\<close> and an empty volume both element counts
  are 0 and the access returns an empty tensor.
\<close>

theorem C10_sectionate_multichannel_counterexample:
  "(case DatasetGenerator_init example_library
          ((default_args [''P_1''] [(''P_1'', 1::int)])
             \<lparr>arg_to_sectionate := True, arg_dim := [- 1, 1, 1]\<rparr>) example_world of
      (Inl e, w) \<Rightarrow> False
    | (Inr self, w) \<Rightarrow>
        length (modality self) < 2 \<and> to_sectionate self \<and> 1 < n_channels self
      \<and> fst (DatasetGenerator_getitem example_library (example_files ''P_1_FLAIR.npy'') self 0 w)
          = Inr (NDArray [6, 1, 1] [1, 2, 3, 4, 5, 6], [1]))
   \<and> (case DatasetGenerator_init example_library
          ((default_args [''P_1''] [(''P_1'', 1::int)])
             \<lparr>arg_to_sectionate := True, arg_dim := [0, 86, 86]\<rparr>) example_world of
      (Inl e, w) \<Rightarrow> False
    | (Inr self, w) \<Rightarrow>
        length (modality self) < 2 \<and> to_sectionate self \<and> 1 < n_channels self
      \<and> fst (DatasetGenerator_getitem example_library
               (\<lambda>path. if path = ''../../data/upenn_GBM/images/NIfTI-files/P_1_FLAIR.npy''
                       then Some (NDArray [4, 0, 86, 86] []) else None) self 0 w)
          = Inr (NDArray [0, 86, 86] [], [1]))"
  by (simp add: run_defs)

theorem C10_sectionate_multichannel_fails_witness:
  "(case DatasetGenerator_init example_library
          ((default_args [''P_1''] [(''P_1'', 1::int)])
             \<lparr>arg_to_sectionate := True, arg_dim := [2, 1, 1]\<rparr>) example_world of
      (Inl e, w) \<Rightarrow> False
    | (Inr self, w) \<Rightarrow>
        length (modality self) < 2 \<and> to_sectionate self \<and> 1 < n_channels self
      \<and> list_all (\<lambda>d. 0 < d) (dim self)
      \<and> get_pat_array example_library (example_files ''P_1_FLAIR.npy'') self ''P_1'' w
          = (Inr (NDArray [2, 1, 1, 3] [1, 2, 3, 4, 5, 6]), w)
      \<and> DatasetGenerator_getitem example_library (example_files ''P_1_FLAIR.npy'') self 0 w
          = (Inl ValueError, w))"
proof -
  let ?fs = "example_files ''P_1_FLAIR.npy''"
  let ?args = "(default_args [''P_1''] [(''P_1'', 1::int)])
             \<lparr>arg_to_sectionate := True, arg_dim := [2, 1, 1]\<rparr>"
  obtain self w where
    init: "DatasetGenerator_init example_library ?args example_world = (Inr self, w)"
    by (simp add: DatasetGenerator_init_def default_args_def expand_index_def Let_def
          split: prod.splits)
  then have s: "length (modality self) < 2" "to_sectionate self" "1 < n_channels self"
    "dim self = [2, 1, 1]" "labels self = [(''P_1'', 1)]" "data_dir self = arg_data_dir ?args"
    "modality self = [''FLAIR'']" "n_channels self = 3" "\<not> to_augment self"
    "augment_types self = [''noise'', ''flip'', ''rotate'', ''deform'']"
    by (auto simp: DatasetGenerator_init_def default_args_def expand_index_def Let_def)
  then have pos: "\<forall>d \<in> set (dim self). 0 < d" by simp
  have g: "get_pat_array example_library ?fs self ''P_1'' w
          = (Inr (NDArray [2, 1, 1, 3] [1, 2, 3, 4, 5, 6]), w)"
    using s by (simp add: run_defs)
  have p: "py_index (index_of (labels self)) 0 = Inr ''P_1''"
    using s by (simp add: py_index_def index_of_def)
  from C10_sectionate_multichannel_fails [OF s(1,2,3) pos, of example_library ?fs 0 w] p g
  have "DatasetGenerator_getitem example_library ?fs self 0 w = (Inl ValueError, w)"
    by blast
  with init s g show ?thesis by simp
qed

lemma prepare_radiomics_raises: "isl (prepare_radiomics lib args)"
  by (auto simp: prepare_radiomics_def bind_e_def Let_def split: sum.splits)

text \<open>
  Claim C9. The code does not do what the claim says: construction with encoding enabled
  never yields an instance. Line 45 raises NameError for \<open>StandardScaler\<close> as soon as the
  table has been retrieved and restricted, so no column is ever standardized. The
  substitution of \<open>FLAIR\<close> for the placeholder \<open>mod\<close> happens before that, as claimed.
\<close>

theorem C9_encoding_construction_raises:
  "isl (fst (DatasetGenerator_init lib (args\<lparr>arg_to_encode := True\<rparr>) w))
   \<and> prepare_radiomics lib (args\<lparr>arg_modality := ''mod'' # ms\<rparr>)
       = prepare_radiomics lib (args\<lparr>arg_modality := ''FLAIR'' # ms\<rparr>)
   \<and> fst (DatasetGenerator_init example_library
            ((default_args [''P_1''] [(''P_1'', 1::int)])\<lparr>arg_to_encode := True\<rparr>) example_world)
       = Inl (NameError ''StandardScaler'')
   \<and> fst (DatasetGenerator_init example_library
            ((default_args [''P_1''] [(''P_1'', 1::int)])
               \<lparr>arg_to_encode := True, arg_modality := [''mod'']\<rparr>) example_world)
       = Inl (NameError ''StandardScaler'')"
proof -
  have a: "isl (fst (DatasetGenerator_init lib (args\<lparr>arg_to_encode := True\<rparr>) w))"
    using prepare_radiomics_raises [of lib "args\<lparr>arg_to_encode := True\<rparr>"]
    by (cases "prepare_radiomics lib (args\<lparr>arg_to_encode := True\<rparr>)")
       (simp_all add: DatasetGenerator_init_def Let_def)
  have b: "prepare_radiomics lib (args\<lparr>arg_modality := ''mod'' # ms\<rparr>)
       = prepare_radiomics lib (args\<lparr>arg_modality := ''FLAIR'' # ms\<rparr>)"
    by (simp add: prepare_radiomics_def py_index_def Let_def)
  have c: "fst (DatasetGenerator_init example_library
            ((default_args [''P_1''] [(''P_1'', 1::int)])\<lparr>arg_to_encode := True\<rparr>) example_world)
       = Inl (NameError ''StandardScaler'')"
    by (simp add: DatasetGenerator_init_def prepare_radiomics_def default_args_def
          example_library_def example_world_def py_index_def Let_def)
  have d: "fst (DatasetGenerator_init example_library
            ((default_args [''P_1''] [(''P_1'', 1::int)])
               \<lparr>arg_to_encode := True, arg_modality := [''mod'']\<rparr>) example_world)
       = Inl (NameError ''StandardScaler'')"
    by (simp add: DatasetGenerator_init_def prepare_radiomics_def default_args_def
          example_library_def example_world_def py_index_def Let_def)
  from a b c d show ?thesis by simp
qed

lemma file_name_encode [simp]:
  "file_name (self\<lparr>to_encode := e, radiomics := r\<rparr>) = file_name self"
  by (intro ext) (simp add: file_name_def cong: if_cong)

lemma stack_modalities_encode [simp]:
  "stack_modalities fs (self\<lparr>to_encode := e, radiomics := r\<rparr>) pat_idx imod mods
     = stack_modalities fs self pat_idx imod mods"
proof (induction mods arbitrary: imod)
  case Nil
  show ?case by (rule ext) simp
next
  case (Cons m mods)
  show ?case by (rule ext) (simp add: Cons)
qed

lemma apply_encode [simp]:
  "apply_rotation lib (self\<lparr>to_encode := e, radiomics := r\<rparr>) = apply_rotation lib self"
  "apply_noise lib (self\<lparr>to_encode := e, radiomics := r\<rparr>) = apply_noise lib self"
  "apply_deformation lib (self\<lparr>to_encode := e, radiomics := r\<rparr>) = apply_deformation lib self"
  by (intro ext, simp add: apply_rotation_def apply_noise_def apply_deformation_def
        cong: if_cong)+

lemma augment_encode [simp]:
  "augment lib (self\<lparr>to_encode := e, radiomics := r\<rparr>) = augment lib self"
  by (intro ext) (simp add: augment_def cong: if_cong)

lemma get_pat_array_encode [simp]:
  "get_pat_array lib fs (self\<lparr>to_encode := e, radiomics := r\<rparr>) = get_pat_array lib fs self"
  by (intro ext) (simp add: get_pat_array_def cong: if_cong)

lemma get_pat_mod_array_encode [simp]:
  "get_pat_mod_array lib fs (self\<lparr>to_encode := e, radiomics := r\<rparr>)
     = get_pat_mod_array lib fs self"
  by (intro ext) (simp add: get_pat_mod_array_def cong: if_cong)

lemma getitem_encode:
  "DatasetGenerator_getitem lib fs (self\<lparr>to_encode := e, radiomics := r\<rparr>)
     = DatasetGenerator_getitem lib fs self"
  by (intro ext) (simp add: DatasetGenerator_getitem_def cong: if_cong)

text \<open>
  Claim C8. The code does not do what the claim says: item access never calls \<open>encode\<close>,
  it returns the same result whether or not the instance has encoding enabled and holds a
  feature table; \<open>encode\<close> itself raises AttributeError at its first statement; and no
  instance with encoding enabled can be constructed at all.
\<close>

theorem C8_encoder_never_applied:
  "DatasetGenerator_getitem lib fs (self\<lparr>to_encode := True, radiomics := Some table\<rparr>) idx w
     = DatasetGenerator_getitem lib fs (self\<lparr>to_encode := False, radiomics := None\<rparr>) idx w
   \<and> encode self arr pat_idx = Inl (AttributeError ''append'')
   \<and> isl (fst (DatasetGenerator_init lib (args\<lparr>arg_to_encode := True\<rparr>) w0))"
proof -
  have "isl (fst (DatasetGenerator_init lib (args\<lparr>arg_to_encode := True\<rparr>) w0))"
    using prepare_radiomics_raises [of lib "args\<lparr>arg_to_encode := True\<rparr>"]
    by (cases "prepare_radiomics lib (args\<lparr>arg_to_encode := True\<rparr>)")
       (simp_all add: DatasetGenerator_init_def Let_def)
  then show ?thesis by (simp add: getitem_encode encode_def)
qed

lemma prod_list_align_shape: "prod_list (align_shape vs k) = prod_list vs"
proof (induction vs k rule: align_shape.induct)
  case (1 vs k)
  show ?case
  proof (cases "length vs \<le> k")
    case True
    then show ?thesis by (subst align_shape.simps) simp
  next
    case False
    then obtain v vs' where vs: "vs = v # vs'" by (cases vs) auto
    show ?thesis
    proof (cases "v = 1")
      case True
      with False vs "1.IH" [of v vs'] show ?thesis by (subst align_shape.simps) simp
    next
      case False': False
      with False vs show ?thesis by (subst align_shape.simps) simp
    qed
  qed
qed

lemma align_shape_same: "align_shape s (length s) = s"
  by (subst align_shape.simps) simp

lemma length_broadcast_data:
  "list_all2 (\<lambda>x y. x = y \<or> x = 1) vs s \<Longrightarrow> length d = prod_list vs \<Longrightarrow>
   length (broadcast_data vs s d) = prod_list s"
proof (induction vs s d rule: broadcast_data.induct)
  case (1 v vs n s d)
  from "1.prems" have rest: "list_all2 (\<lambda>x y. x = y \<or> x = 1) vs s" and v: "v = n \<or> v = 1"
    by simp_all
  show ?case
  proof (cases "v = n")
    case True
    with "1.prems" have len: "length d = n * prod_list vs" by simp
    have "\<forall>xs \<in> set (map (\<lambda>i. broadcast_data vs s (chunk i (prod_list vs) d)) [0..<n]).
            length xs = prod_list s"
      using "1.IH"(1) [OF True _ rest] length_chunk [OF _ len] by auto
    from length_concat_uniform [OF this] True show ?thesis by simp
  next
    case False
    with v have v1: "v = 1" by simp
    with "1.prems" have "length d = prod_list vs" by simp
    from "1.IH"(2) [OF False rest this] False show ?thesis
      by (simp add: length_concat comp_def sum_list_replicate)
  qed
qed (auto simp: list_all2_Cons1 list_all2_Cons2)

lemma broadcast_data_same:
  "length d = prod_list s \<Longrightarrow> broadcast_data s s d = d"
proof (induction s arbitrary: d)
  case Nil
  then show ?case by simp
next
  case (Cons n s)
  then have len: "length d = n * prod_list s" by simp
  have A: "map (\<lambda>i. broadcast_data s s (chunk i (prod_list s) d)) [0..<n]
      = map (\<lambda>i. chunk i (prod_list s) d) [0..<n]"
    using Cons.IH length_chunk [OF _ len] by (intro map_cong) simp_all
  have "broadcast_data (n # s) (n # s) d
      = concat (map (\<lambda>i. broadcast_data s s (chunk i (prod_list s) d)) [0..<n])"
    by simp
  also have "\<dots> = d" by (simp only: A concat_chunks [OF len])
  finally show ?case .
qed

lemma chunk_update_same:
  assumes "length d = n * m" and "i < n" and "length B = m"
  shows "chunk i m (take (i * m) d @ B @ drop (Suc i * m) d) = B"
proof -
  from assms(2) have "i * m \<le> n * m" by (intro mult_le_mono1) simp
  with assms(1) have "length (take (i * m) d) = i * m" by simp
  with assms(3) show ?thesis by (simp add: chunk_def)
qed

lemma chunk_update_below:
  assumes "length d = n * m" and "i < n" and "j < i"
  shows "chunk j m (take (i * m) d @ B @ drop (Suc i * m) d) = chunk j m d"
proof -
  from assms(3) have "Suc j * m \<le> i * m" by (intro mult_le_mono1) simp
  then have le: "j * m + m \<le> i * m" by simp
  from assms(2) have "i * m \<le> n * m" by (intro mult_le_mono1) simp
  with assms(1) have lA: "length (take (i * m) d) = i * m" by simp
  have "chunk j m (take (i * m) d @ B @ drop (Suc i * m) d)
      = take m (drop (j * m) (take (i * m) d))"
    using le lA by (simp add: chunk_def)
  also have "\<dots> = take m (drop (j * m) d)"
    using le by (simp add: drop_take min_def)
  finally show ?thesis by (simp add: chunk_def)
qed

lemma chunk_update_above:
  assumes "length d = n * m" and "i < n" and "i < j" and "length B = m"
  shows "chunk j m (take (i * m) d @ B @ drop (Suc i * m) d) = chunk j m d"
proof -
  from assms(3) have "Suc i * m \<le> j * m" by (intro mult_le_mono1) simp
  then have le: "i * m + m \<le> j * m" by simp
  from assms(2) have "i * m \<le> n * m" by (intro mult_le_mono1) simp
  with assms(1) have lA: "length (take (i * m) d) = i * m" by simp
  have "drop (j * m) (take (i * m) d @ B @ drop (Suc i * m) d)
      = drop (j * m - (i * m + m)) (drop (Suc i * m) d)"
    using le lA assms(3,4) by simp
  also have "\<dots> = drop (j * m) d"
    using le by (simp add: add.commute)
  finally show ?thesis by (simp add: chunk_def)
qed

lemma setitem_int_slots:
  assumes wa: "wf_array a" and wv: "wf_array v" and sh: "shape a = n # s"
    and set: "setitem_int a i v = Inr a'"
  shows "shape a' = n # s" and "wf_array a'"
    and "getitem_int a' i =
           Inr (NDArray s (broadcast_data (align_shape (shape v) (length s)) s (data v)))"
    and "j \<noteq> i \<Longrightarrow> getitem_int a' j = getitem_int a j"
proof -
  let ?m = "prod_list s"
  let ?vs = "align_shape (shape v) (length s)"
  let ?B = "broadcast_data ?vs s (data v)"
  from set sh have i: "i < n" and ok: "list_all2 (\<lambda>x y. x = y \<or> x = 1) ?vs s"
    and a': "a' = NDArray (n # s) (take (i * ?m) (data a) @ ?B @ drop (Suc i * ?m) (data a))"
    by (auto simp: setitem_int_def Let_def split: if_splits)
  from wa sh have len: "length (data a) = n * ?m" by (simp add: wf_array_def)
  from wv have "length (data v) = prod_list ?vs"
    by (simp add: wf_array_def prod_list_align_shape)
  from length_broadcast_data [OF ok this] have lB: "length ?B = ?m" .
  show "shape a' = n # s" by (simp add: a')
  from i have "i * ?m \<le> n * ?m" "Suc i * ?m \<le> n * ?m" by (intro mult_le_mono1, simp)+
  with len lB show "wf_array a'" by (simp add: wf_array_def a')
  show "getitem_int a' i = Inr (NDArray s ?B)"
    using i chunk_update_same [OF len i lB] by (simp add: getitem_int_def a')
  show "getitem_int a' j = getitem_int a j" if "j \<noteq> i"
  proof (cases "j < i")
    case True
    with chunk_update_below [OF len i True, of ?B] i sh show ?thesis
      by (simp add: getitem_int_def a')
  next
    case False
    with that have "i < j" by simp
    from chunk_update_above [OF len i this lB] sh show ?thesis
      by (simp add: getitem_int_def a')
  qed
qed

lemma bind_e_Inr_iff:
  "bind_e r f = Inr y \<longleftrightarrow> (\<exists>x. r = Inr x \<and> f x = Inr y)"
  by (cases r) simp_all

lemma stack_modalities_slots:
  assumes files: "\<forall>p v. fs p = Some v \<longrightarrow> wf_array v"
  shows "wf_array mod_arr \<Longrightarrow> shape mod_arr = n # s \<Longrightarrow>
         stack_modalities fs self pat_idx imod mods mod_arr = Inr res \<Longrightarrow>
         shape res = n # s \<and> wf_array res
       \<and> (\<forall>j<imod. getitem_int res j = getitem_int mod_arr j)
       \<and> (\<forall>k<length mods. \<exists>v whole.
             np_load fs (os_path_join (data_dir self) (file_name self pat_idx (mods ! k))) = Inr v
           \<and> getitem_int v 3 = Inr whole
           \<and> getitem_int res (imod + k) =
               Inr (NDArray s (broadcast_data (align_shape (shape whole) (length s)) s
                     (data whole))))"
proof (induction mods arbitrary: imod mod_arr)
  case Nil
  then show ?case by simp
next
  case (Cons m mods)
  let ?path = "os_path_join (data_dir self) (file_name self pat_idx m)"
  from Cons.prems(3) obtain v whole mod_arr' where
    ld: "np_load fs ?path = Inr v" and wh: "getitem_int v 3 = Inr whole"
    and st: "setitem_int mod_arr imod whole = Inr mod_arr'"
    and rest: "stack_modalities fs self pat_idx (Suc imod) mods mod_arr' = Inr res"
    by (auto simp: bind_e_Inr_iff)
  from ld files have "wf_array v" by (auto simp: np_load_def split: option.splits)
  from wf_getitem_int [OF this wh] have ww: "wf_array whole" .
  note si = setitem_int_slots [OF Cons.prems(1) ww Cons.prems(2) st]
  from Cons.IH [OF si(2) si(1) rest] have
    sh: "shape res = n # s" and wr: "wf_array res"
    and low: "\<forall>j<Suc imod. getitem_int res j = getitem_int mod_arr' j"
    and up: "\<forall>k<length mods. \<exists>v whole.
             np_load fs (os_path_join (data_dir self) (file_name self pat_idx (mods ! k))) = Inr v
           \<and> getitem_int v 3 = Inr whole
           \<and> getitem_int res (Suc imod + k) =
               Inr (NDArray s (broadcast_data (align_shape (shape whole) (length s)) s
                     (data whole)))"
    by blast+
  have below: "\<forall>j<imod. getitem_int res j = getitem_int mod_arr j"
    using low si(4) by auto
  have here: "getitem_int res imod =
      Inr (NDArray s (broadcast_data (align_shape (shape whole) (length s)) s (data whole)))"
    using low si(3) by simp
  have slots: "\<exists>v whole.
             np_load fs (os_path_join (data_dir self) (file_name self pat_idx ((m # mods) ! k))) = Inr v
           \<and> getitem_int v 3 = Inr whole
           \<and> getitem_int res (imod + k) =
               Inr (NDArray s (broadcast_data (align_shape (shape whole) (length s)) s
                     (data whole)))" if "k < length (m # mods)" for k
  proof (cases k)
    case 0
    with ld wh here show ?thesis by auto
  next
    case (Suc k')
    with that up show ?thesis by simp
  qed
  from sh wr below slots show ?case by blast
qed

lemma setitem_int_shape: "setitem_int a i v = Inr a' \<Longrightarrow> shape a' = shape a"
  by (auto simp: setitem_int_def Let_def split: list.splits if_splits)

lemma rotate_slices_shape:
  "rotate_slices lib angle ixs arr = Inr arr' \<Longrightarrow> shape arr' = shape arr"
proof (induction ixs arbitrary: arr)
  case Nil
  then show ?case by simp
next
  case (Cons i ixs)
  from Cons.prems obtain sl r a1 where
    "setitem_int_3slices arr i r = Inr a1" and "rotate_slices lib angle ixs a1 = Inr arr'"
    by (auto simp: bind_e_Inr_iff)
  with Cons.IH [of a1] show ?case
    by (auto simp: setitem_int_3slices_def dest: setitem_int_shape split: if_splits)
qed

lemma apply_flip_shape: "apply_flip nc arr = Inr r \<Longrightarrow> shape r = shape arr"
  by (auto simp: apply_flip_def np_flip_def split: if_splits)

lemma apply_rotation_shape:
  "n_channels self \<noteq> 1 \<Longrightarrow> apply_rotation lib self arr w = (Inr r, w') \<Longrightarrow> shape r = shape arr"
  by (auto simp: apply_rotation_def Let_def simp del: rotate_slices.simps
        dest: rotate_slices_shape split: prod.splits if_splits)

lemma apply_transformation_shape:
  assumes "shape_preserving lib" and "n_channels self \<noteq> 1"
    and "apply_transformation lib self t arr w = (Inr r, w')"
  shows "shape r = shape arr"
proof (cases t)
  case Flip
  with assms(3) show ?thesis by (auto dest: apply_flip_shape)
next
  case Rotate
  with assms(2,3) show ?thesis by (auto dest: apply_rotation_shape)
next
  case Noise
  with assms(1,3) show ?thesis
    by (auto simp: apply_noise_def shape_preserving_def split: prod.splits) (metis fst_conv)
next
  case Deform
  with assms(1,3) show ?thesis
    by (auto simp: apply_deformation_def shape_preserving_def split: prod.splits) (metis fst_conv)
qed

lemma run_transformations_shape:
  assumes "shape_preserving lib" and "n_channels self \<noteq> 1"
  shows "run_transformations lib self ts arr w = (Inr r, w') \<Longrightarrow> shape r = shape arr"
proof (induction ts arbitrary: arr w)
  case Nil
  then show ?case by simp
next
  case (Cons t ts)
  from Cons.prems obtain a1 w1 where
    "apply_transformation lib self t arr w = (Inr a1, w1)"
    and "run_transformations lib self ts a1 w1 = (Inr r, w')"
    by (auto simp: then_w_Inr_iff)
  with Cons.IH [of a1 w1] apply_transformation_shape [OF assms] show ?case by metis
qed

lemma np_empty_Inr:
  "np_empty lib shp = Inr a \<Longrightarrow> shape a = map nat shp \<and> wf_array a"
  by (auto simp: np_empty_def wf_array_def split: if_splits)

text \<open>
  Claim C5, as amended. For an instance constructed with more than one modality, whatever
  channel count was configured, and library calls for noise and deformation that keep the
  shape of their argument: when the multi-modality loader returns, its output has the shape
  \<open>(len(modality), *dim)\<close>, so a leading axis as long as the modality list. Slot \<open>i\<close> of
  the array stacked before the augmentations holds entry 3 of the leading axis of the volume
  loaded for modality \<open>i\<close>, broadcast to \<open>dim\<close> by the assignment, which is that entry
  itself when it has the shape \<open>dim\<close>. The output is the stacked array for an identifier
  that is not routed to the augmentations, and the augmented stacked array otherwise.
\<close>

theorem C5_multi_modality_stack:
  assumes multi: "1 < length (arg_modality args)"
    and init: "DatasetGenerator_init lib args w0 = (Inr self, w1)"
    and files: "\<forall>p v. fs p = Some v \<longrightarrow> wf_array v"
    and lib: "shape_preserving lib"
    and ret: "get_pat_mod_array lib fs self pat_idx w = (Inr out, w')"
  shows "shape out = length (arg_modality args) # map nat (arg_dim args)
       \<and> (\<exists>stacked.
            bind_e (np_empty lib (int (length (modality self)) # dim self))
              (stack_modalities fs self pat_idx 0 (modality self)) = Inr stacked
          \<and> augment lib self pat_idx stacked w = (Inr out, w')
          \<and> (\<not> routed (augment_types self) pat_idx \<longrightarrow> out = stacked)
          \<and> (\<forall>i<length (arg_modality args). \<exists>v whole.
                np_load fs (os_path_join (arg_data_dir args)
                  (file_name self pat_idx (arg_modality args ! i))) = Inr v
              \<and> getitem_int v 3 = Inr whole
              \<and> getitem_int stacked i =
                  Inr (NDArray (map nat (arg_dim args))
                    (broadcast_data (align_shape (shape whole) (length (arg_dim args)))
                       (map nat (arg_dim args)) (data whole)))
              \<and> (shape whole = map nat (arg_dim args) \<longrightarrow> getitem_int stacked i = Inr whole)))"
proof -
  from init have s: "modality self = arg_modality args" "dim self = arg_dim args"
    "n_channels self = int (length (arg_modality args))" "data_dir self = arg_data_dir args"
    using multi
    by (auto simp: DatasetGenerator_init_def Let_def split: sum.splits prod.splits if_splits)
  let ?dims = "map nat (arg_dim args)"
  let ?n = "length (arg_modality args)"
  from ret obtain stacked where
    st: "bind_e (np_empty lib (int (length (modality self)) # dim self))
              (stack_modalities fs self pat_idx 0 (modality self)) = Inr stacked"
    and au: "augment lib self pat_idx stacked w = (Inr out, w')"
    by (auto simp: get_pat_mod_array_def then_w_Inr_iff)
  from st obtain e where
    em: "np_empty lib (int ?n # arg_dim args) = Inr e"
    and lp: "stack_modalities fs self pat_idx 0 (arg_modality args) e = Inr stacked"
    by (auto simp: bind_e_Inr_iff s)
  from np_empty_Inr [OF em] have e: "shape e = ?n # ?dims" "wf_array e" by simp_all
  from stack_modalities_slots [OF files e(2) e(1) lp] have
    shs: "shape stacked = ?n # ?dims"
    and slots: "\<forall>k<?n. \<exists>v whole.
             np_load fs (os_path_join (data_dir self) (file_name self pat_idx (arg_modality args ! k))) = Inr v
           \<and> getitem_int v 3 = Inr whole
           \<and> getitem_int stacked (0 + k) =
               Inr (NDArray ?dims (broadcast_data (align_shape (shape whole) (length ?dims)) ?dims
                     (data whole)))"
    by blast+
  from multi s have nc: "n_channels self \<noteq> 1" by simp
  have "shape out = shape stacked"
  proof (cases "last (split_us pat_idx) \<in> set (augment_types self)")
    case True
    with au have "run_transformations lib self (applicable (last (split_us pat_idx))) stacked w
                  = (Inr out, w')"
      by (simp add: augment_as_run)
    from run_transformations_shape [OF lib nc this] show ?thesis .
  next
    case False
    with au show ?thesis by (simp add: augment_as_run)
  qed
  with shs have sho: "shape out = ?n # ?dims" by simp
  have unrouted: "out = stacked" if "\<not> routed (augment_types self) pat_idx"
    using that au by (simp add: augment_def)
  have slot: "\<exists>v whole.
                np_load fs (os_path_join (arg_data_dir args)
                  (file_name self pat_idx (arg_modality args ! i))) = Inr v
              \<and> getitem_int v 3 = Inr whole
              \<and> getitem_int stacked i =
                  Inr (NDArray ?dims
                    (broadcast_data (align_shape (shape whole) (length (arg_dim args)))
                       ?dims (data whole)))
              \<and> (shape whole = ?dims \<longrightarrow> getitem_int stacked i = Inr whole)"
    if "i < ?n" for i
  proof -
    from slots that s(4) obtain v whole where
      ld: "np_load fs (os_path_join (arg_data_dir args)
                  (file_name self pat_idx (arg_modality args ! i))) = Inr v"
      and wh: "getitem_int v 3 = Inr whole"
      and gi: "getitem_int stacked i =
               Inr (NDArray ?dims (broadcast_data (align_shape (shape whole) (length ?dims)) ?dims
                     (data whole)))"
      by auto
    from ld files have "wf_array v" by (auto simp: np_load_def split: option.splits)
    from wf_getitem_int [OF this wh] have ww: "wf_array whole" .
    have "getitem_int stacked i = Inr whole" if eq: "shape whole = ?dims"
    proof -
      from ww eq have "length (data whole) = prod_list ?dims" by (simp add: wf_array_def)
      from broadcast_data_same [OF this] align_shape_same [of ?dims] gi eq
      have "getitem_int stacked i = Inr (NDArray (shape whole) (data whole))" by simp
      then show ?thesis by simp
    qed
    with ld wh gi show ?thesis by auto
  qed
  from sho st au unrouted slot show ?thesis by blast
qed

theorem C5_multi_modality_stack_witness:
  "shape_preserving example_library
   \<and> (case DatasetGenerator_init example_library
             ((default_args [''P_1''] [(''P_1'', 1::int)])
                \<lparr>arg_modality := [''T1'', ''T2''], arg_dim := [2, 1, 1]\<rparr>) example_world of
        (Inl e, w) \<Rightarrow> False
      | (Inr self, w) \<Rightarrow>
          get_pat_mod_array example_library example_modality_files self ''P_1'' w
            = (Inr (NDArray [2, 2, 1, 1] [7, 8, 17, 18]), w))"
proof -
  let ?args = "(default_args [''P_1''] [(''P_1'', 1::int)])
                \<lparr>arg_modality := [''T1'', ''T2''], arg_dim := [2, 1, 1]\<rparr>"
  obtain self w where
    init: "DatasetGenerator_init example_library ?args example_world = (Inr self, w)"
    by (simp add: DatasetGenerator_init_def default_args_def expand_index_def Let_def
          split: prod.splits)
  then have s: "modality self = [''T1'', ''T2'']" "dim self = [2, 1, 1]"
    "data_dir self = ''../../data/upenn_GBM/images/NIfTI-files/''" "\<not> to_augment self"
    "augment_types self = [''noise'', ''flip'', ''rotate'', ''deform'']"
    by (auto simp: DatasetGenerator_init_def default_args_def expand_index_def Let_def)
  have h1: "1 < length (arg_modality ?args)" by simp
  have h3: "\<forall>p v. example_modality_files p = Some v \<longrightarrow> wf_array v"
    by (simp add: example_modality_files_def wf_array_def)
  have h4: "shape_preserving example_library"
    by (simp add: shape_preserving_def example_library_def)
  have ev: "get_pat_mod_array example_library example_modality_files self ''P_1'' w
            = (Inr (NDArray [2, 2, 1, 1] [7, 8, 17, 18]), w)"
    using s
    by (simp add: get_pat_mod_array_def np_empty_def example_library_def
          example_modality_files_def file_name_def os_path_join_def np_load_def
          getitem_int_def setitem_int_def align_shape.simps chunk_def augment_def routed_def
          upt_conv_Cons
          Let_def)
  from C5_multi_modality_stack [OF h1 init h3 h4 ev]
  have "shape (NDArray [2, 2, 1, 1] [7, 8, 17, 18::int]) = 2 # map nat [2, 1, 1]"
    by (simp add: default_args_def)
  with h4 init ev show ?thesis by simp
qed

text \<open>
  Claim C5 as stated fails for an identifier that is routed to the augmentations: for
  \<open>P_1_flip\<close> the stacked array is mirrored before it is returned, so slot 0 of the output
  holds \<open>[8, 7]\<close> where entry 3 of the volume loaded for the first modality is \<open>[7, 8]\<close>.
\<close>

theorem C5_multi_modality_stack_counterexample:
  "(case DatasetGenerator_init example_library
          ((default_args [''P_1''] [(''P_1'', 1::int)])
             \<lparr>arg_modality := [''T1'', ''T2''], arg_dim := [2, 1, 1],
              arg_to_augment := True\<rparr>) example_world of
      (Inl e, w) \<Rightarrow> False
    | (Inr self, w) \<Rightarrow>
        index_of (labels self) ! 2 = ''P_1_flip''
      \<and> get_pat_mod_array example_library example_modality_files self ''P_1_flip'' w
          = (Inr (NDArray [2, 2, 1, 1] [8, 7, 18, 17]), w)
      \<and> getitem_int (NDArray [2, 2, 1, 1] [8, 7, 18, 17 :: int]) 0 = Inr (NDArray [2, 1, 1] [8, 7])
      \<and> bind_e (np_load example_modality_files
                  (os_path_join (data_dir self) (file_name self ''P_1_flip'' ''T1'')))
            (\<lambda>v. getitem_int v 3) = Inr (NDArray [2, 1, 1] [7, 8]))"
  by (simp add: DatasetGenerator_init_def default_args_def example_library_def
        example_world_def expand_index_def suffixed_copy_def dict_values_def index_of_def
        get_pat_mod_array_def np_empty_def example_modality_files_def file_name_def
        os_path_join_def np_load_def getitem_int_def setitem_int_def align_shape.simps
        chunk_def augment_def routed_def apply_flip_def np_flip_def ndim_def Let_def
        upt_conv_Cons)

section \<open>Two runs with the same seed\<close>

lemma then_w_snd:
  "snd (then_w rw f) = (case rw of (Inl e, w) \<Rightarrow> w | (Inr x, w) \<Rightarrow> snd (f x w))"
  by (cases rw) (auto simp: then_w_def split: sum.splits)

lemma getitem_world:
  "snd (DatasetGenerator_getitem lib fs self idx w) =
     (case py_index (index_of (labels self)) idx of
        Inl e \<Rightarrow> w
      | Inr pat_idx \<Rightarrow>
          (case loaded lib fs self pat_idx of
             Inl e \<Rightarrow> w
           | Inr arr \<Rightarrow> snd (augment lib self pat_idx arr w)))"
proof (cases "py_index (index_of (labels self)) idx")
  case (Inl e)
  then show ?thesis by (simp add: DatasetGenerator_getitem_def)
next
  case (Inr pat_idx)
  show ?thesis
  proof (cases "loaded lib fs self pat_idx")
    case (Inl e)
    with Inr show ?thesis
      by (auto simp: DatasetGenerator_getitem_def get_pat_array_def get_pat_mod_array_def
            loaded_def Let_def split: if_splits)
  next
    case (Inr arr)
    obtain r w' where au: "augment lib self pat_idx arr w = (r, w')"
      by (cases "augment lib self pat_idx arr w")
    with Inr \<open>py_index (index_of (labels self)) idx = Inr pat_idx\<close> show ?thesis
      by (cases r)
         (auto simp: DatasetGenerator_getitem_def get_pat_array_def get_pat_mod_array_def
            loaded_def Let_def then_w_snd split: if_splits sum.splits)
  qed
qed

lemma loaded_rng [simp]:
  "loaded lib fs (self\<lparr>rng_noise := x, rng_rotate := y\<rparr>) = loaded lib fs self"
proof -
  have fn: "file_name (self\<lparr>rng_noise := x, rng_rotate := y\<rparr>) = file_name self"
    by (intro ext) (simp add: file_name_def cong: if_cong)
  have st: "stack_modalities fs (self\<lparr>rng_noise := x, rng_rotate := y\<rparr>) p imod mods
          = stack_modalities fs self p imod mods" for p imod mods
  proof (induction mods arbitrary: imod)
    case Nil
    show ?case by (rule ext) simp
  next
    case (Cons m mods)
    show ?case by (rule ext) (simp add: Cons fn)
  qed
  show ?thesis by (intro ext) (simp add: loaded_def fn st cong: if_cong)
qed

lemma sim_rotation:
  assumes "rng_sim a wa b wb" and "n_channels b = n_channels a"
  shows "fst (apply_rotation lib a arr wa) = fst (apply_rotation lib b arr wb)
       \<and> rng_sim a (snd (apply_rotation lib a arr wa)) b (snd (apply_rotation lib b arr wb))"
  using assms
  by (auto simp: apply_rotation_def rng_sim_def Let_def split: prod.splits
        simp del: rotate_slices.simps)

lemma sim_noise:
  assumes "rng_sim a wa b wb"
  shows "fst (apply_noise lib a arr wa) = fst (apply_noise lib b arr wb)
       \<and> rng_sim a (snd (apply_noise lib a arr wa)) b (snd (apply_noise lib b arr wb))"
  using assms
  by (auto simp: apply_noise_def rng_sim_def Let_def split: prod.splits)

lemma sim_deformation:
  assumes "rng_sim a wa b wb"
  shows "rng_sim a (snd (apply_deformation lib a x wa)) b (snd (apply_deformation lib b y wb))"
  using assms
  by (auto simp: apply_deformation_def rng_sim_def Let_def split: prod.splits)

lemma sim_transformation:
  assumes "rng_sim a wa b wb" and "n_channels b = n_channels a" and "t \<noteq> Deform"
  shows "fst (apply_transformation lib a t arr wa) = fst (apply_transformation lib b t arr wb)
       \<and> rng_sim a (snd (apply_transformation lib a t arr wa))
            b (snd (apply_transformation lib b t arr wb))"
  using assms sim_rotation [OF assms(1,2)] sim_noise [OF assms(1)]
  by (cases t) simp_all

lemma sim_run_no_deform:
  assumes "n_channels b = n_channels a" and "Deform \<notin> set ts"
  shows "rng_sim a wa b wb \<Longrightarrow>
         fst (run_transformations lib a ts arr wa) = fst (run_transformations lib b ts arr wb)
       \<and> rng_sim a (snd (run_transformations lib a ts arr wa))
            b (snd (run_transformations lib b ts arr wb))"
  using assms(2)
proof (induction ts arbitrary: arr wa wb)
  case Nil
  then show ?case by simp
next
  case (Cons t ts)
  from Cons.prems have t: "t \<noteq> Deform" and ts: "Deform \<notin> set ts" by auto
  obtain ra wa' where A: "apply_transformation lib a t arr wa = (ra, wa')"
    by (cases "apply_transformation lib a t arr wa")
  obtain rb wb' where B: "apply_transformation lib b t arr wb = (rb, wb')"
    by (cases "apply_transformation lib b t arr wb")
  from sim_transformation [OF Cons.prems(1) assms(1) t, of lib arr] A B
  have eq: "rb = ra" and sim: "rng_sim a wa' b wb'" by simp_all
  note B = B [unfolded eq]
  show ?case
  proof (cases ra)
    case (Inl e)
    with A B sim show ?thesis by simp
  next
    case (Inr x)
    with A B Cons.IH [OF sim ts, of x] show ?thesis by simp
  qed
qed

lemma run_transformations_append:
  "run_transformations lib self (ts @ us) arr w =
     then_w (run_transformations lib self ts arr w) (run_transformations lib self us)"
proof (induction ts arbitrary: arr w)
  case Nil
  then show ?case by simp
next
  case (Cons t ts)
  obtain r w1 where A: "apply_transformation lib self t arr w = (r, w1)"
    by (cases "apply_transformation lib self t arr w")
  show ?case
  proof (cases r)
    case (Inl e)
    with A show ?thesis by simp
  next
    case (Inr x)
    with A Cons.IH [of x w1] show ?thesis by simp
  qed
qed

lemma snd_run_single:
  "snd (run_transformations lib self [t] x w) = snd (apply_transformation lib self t x w)"
proof -
  obtain r w1 where A: "apply_transformation lib self t x w = (r, w1)"
    by (cases "apply_transformation lib self t x w")
  then show ?thesis by (cases r) simp_all
qed

lemma applicable_split:
  "\<exists>ts. Deform \<notin> set ts
      \<and> applicable seg = ts @ (if str_contains ''deform'' seg then [Deform] else [])"
  by (auto simp: applicable_def)

lemma sim_augment:
  assumes sim: "rng_sim a wa b wb" and nc: "n_channels b = n_channels a"
    and at: "augment_types b = augment_types a"
  shows "rng_sim a (snd (augment lib a pat_idx arr wa)) b (snd (augment lib b pat_idx arr wb))"
proof (cases "last (split_us pat_idx) \<in> set (augment_types a)")
  case False
  with sim at show ?thesis by (simp add: augment_as_run)
next
  case True
  let ?seg = "last (split_us pat_idx)"
  from applicable_split [of ?seg] obtain ts where nd: "Deform \<notin> set ts"
    and ap: "applicable ?seg = ts @ (if str_contains ''deform'' ?seg then [Deform] else [])"
    by blast
  obtain ra wa' where A: "run_transformations lib a ts arr wa = (ra, wa')"
    by (cases "run_transformations lib a ts arr wa")
  obtain rb wb' where B: "run_transformations lib b ts arr wb = (rb, wb')"
    by (cases "run_transformations lib b ts arr wb")
  from sim_run_no_deform [OF nc nd sim, of lib arr] A B
  have eq: "rb = ra" and sim': "rng_sim a wa' b wb'" by simp_all
  note B = B [unfolded eq]
  have "rng_sim a (snd (run_transformations lib a (applicable ?seg) arr wa))
          b (snd (run_transformations lib b (applicable ?seg) arr wb))"
  proof (cases ra)
    case (Inl e)
    with A B sim' show ?thesis by (simp add: ap run_transformations_append)
  next
    case (Inr x)
    with A B sim' sim_deformation [OF sim', of lib x x] show ?thesis
      by (simp add: ap run_transformations_append snd_run_single
            del: run_transformations.simps(2))
  qed
  with True at show ?thesis by (simp add: augment_as_run)
qed

lemma same_config_fields:
  assumes "same_config a b"
  shows "labels b = labels a" "n_channels b = n_channels a" "augment_types b = augment_types a"
    "loaded lib fs b = loaded lib fs a"
proof -
  from assms have b: "b = a\<lparr>rng_noise := rng_noise b, rng_rotate := rng_rotate b\<rparr>"
    by (simp add: same_config_def)
  show "labels b = labels a" by (subst b) simp
  show "n_channels b = n_channels a" by (subst b) simp
  show "augment_types b = augment_types a" by (subst b) simp
  show "loaded lib fs b = loaded lib fs a" by (subst b) simp
qed

lemma sim_getitem:
  assumes sim: "rng_sim a wa b wb" and cfg: "same_config a b"
  shows "rng_sim a (snd (DatasetGenerator_getitem lib fs a idx wa))
           b (snd (DatasetGenerator_getitem lib fs b idx wb))"
proof -
  note f = same_config_fields [OF cfg]
  show ?thesis
    unfolding getitem_world f
    using sim sim_augment [OF _ f(2,3)]
    by (auto split: sum.splits)
qed

lemma sim_run_accesses:
  assumes cfg: "same_config a b"
  shows "rng_sim a wa b wb \<Longrightarrow>
         rng_sim a (run_accesses lib fs a idxs wa) b (run_accesses lib fs b idxs wb)"
proof (induction idxs arbitrary: wa wb)
  case Nil
  then show ?case by simp
next
  case (Cons idx idxs)
  from Cons.IH [OF sim_getitem [OF Cons.prems cfg]] show ?case by simp
qed

lemma gens_frame_refl: "gens_frame self w w"
  by (simp add: gens_frame_def)

lemma gens_frame_trans:
  "gens_frame self w w1 \<Longrightarrow> gens_frame self w1 w2 \<Longrightarrow> gens_frame self w w2"
  by (simp add: gens_frame_def)

lemma frame_transformation:
  "gens_frame self w (snd (apply_transformation lib self t arr w))"
  by (cases t)
     (auto simp: gens_frame_def apply_rotation_def apply_noise_def apply_deformation_def
        Let_def split: prod.splits simp del: rotate_slices.simps)

lemma frame_run:
  "gens_frame self w (snd (run_transformations lib self ts arr w))"
proof (induction ts arbitrary: arr w)
  case Nil
  show ?case by (simp add: gens_frame_refl)
next
  case (Cons t ts)
  obtain r w1 where A: "apply_transformation lib self t arr w = (r, w1)"
    by (cases "apply_transformation lib self t arr w")
  with frame_transformation [of self w lib t arr] have f1: "gens_frame self w w1" by simp
  show ?case
  proof (cases r)
    case (Inl e)
    with A f1 show ?thesis by simp
  next
    case (Inr x)
    with A gens_frame_trans [OF f1 Cons.IH [of w1 x]] show ?thesis by simp
  qed
qed

lemma frame_getitem:
  "gens_frame self w (snd (DatasetGenerator_getitem lib fs self idx w))"
  unfolding getitem_world
  by (auto simp: augment_as_run gens_frame_refl frame_run split: sum.splits)

lemma frame_run_accesses:
  "gens_frame self w (run_accesses lib fs self idxs w)"
proof (induction idxs arbitrary: w)
  case Nil
  show ?case by (simp add: gens_frame_refl)
next
  case (Cons idx idxs)
  from gens_frame_trans [OF frame_getitem Cons.IH] show ?case by simp
qed

lemma init_facts:
  assumes "DatasetGenerator_init lib args w0 = (Inr a, wa)"
  shows "rng_noise a = length (generators w0)" "rng_rotate a = Suc (length (generators w0))"
    "generators wa = generators w0 @ [default_rng lib (arg_seed args), default_rng lib (arg_seed args)]"
  using assms
  by (auto simp: DatasetGenerator_init_def Let_def split: sum.splits prod.splits if_splits)

lemma init_same_config:
  assumes "DatasetGenerator_init lib args w0 = (Inr a, wa)"
    and "DatasetGenerator_init lib args w0' = (Inr b, wb)"
  shows "same_config a b"
  using assms
  by (auto simp: DatasetGenerator_init_def same_config_def Let_def
        split: sum.splits prod.splits if_splits)

lemma trace_eq_of_sim:
  assumes "same_config a b" and "rng_sim a (wa\<lparr>observed := []\<rparr>) b (wb\<lparr>observed := []\<rparr>)"
  shows "trace lib fs a idxs wa = trace lib fs b idxs wb"
  using sim_run_accesses [OF assms, of lib fs idxs]
  by (simp add: trace_def rng_sim_def)

text \<open>
  Claim C2. Two instances constructed with the same arguments, so with the same seed, each
  get two generators of their own in the state given by the seed. Replaying a sequence of
  accesses on each yields the same rotation angles and the same noise outcomes in the same
  order: when each instance replays right after its construction, in whatever state it was
  constructed, and also when both are constructed first and the replays follow one another.
\<close>

theorem C2_seed_determinism:
  assumes a: "DatasetGenerator_init lib args w0 = (Inr a, wa)"
    and b: "DatasetGenerator_init lib args w0' = (Inr b, wb)"
  shows "trace lib fs a idxs wa = trace lib fs b idxs wb
       \<and> (w0' = wa \<longrightarrow>
            trace lib fs a idxs wb = trace lib fs b idxs (run_accesses lib fs a idxs wb))"
proof -
  let ?g = "default_rng lib (arg_seed args)"
  note cfg = init_same_config [OF a b]
  note fa = init_facts [OF a]
  note fb = init_facts [OF b]
  have "rng_sim a (wa\<lparr>observed := []\<rparr>) b (wb\<lparr>observed := []\<rparr>)"
    by (simp add: rng_sim_def fa fb nth_append)
  from trace_eq_of_sim [OF cfg this] have first: "trace lib fs a idxs wa = trace lib fs b idxs wb" .
  have second: "trace lib fs a idxs wb = trace lib fs b idxs (run_accesses lib fs a idxs wb)"
    if "w0' = wa"
  proof -
    let ?w3 = "run_accesses lib fs a idxs wb"
    from that fa fb have gb: "generators wb = generators w0 @ [?g, ?g, ?g, ?g]"
      and rb: "rng_noise b = Suc (Suc (length (generators w0)))"
              "rng_rotate b = Suc (Suc (Suc (length (generators w0))))"
      by simp_all
    from frame_run_accesses [of a wb lib fs idxs] have
      len: "length (generators ?w3) = length (generators wb)"
      and keep: "\<And>k. k \<noteq> rng_noise a \<Longrightarrow> k \<noteq> rng_rotate a \<Longrightarrow>
                   generators ?w3 ! k = generators wb ! k"
      by (simp_all add: gens_frame_def)
    have "generators ?w3 ! rng_noise b = ?g" "generators ?w3 ! rng_rotate b = ?g"
      using keep [of "rng_noise b"] keep [of "rng_rotate b"] fa rb gb
      by (simp_all add: nth_append)
    moreover have "generators wb ! rng_noise a = ?g" "generators wb ! rng_rotate a = ?g"
      using fa gb by (simp_all add: nth_append)
    ultimately have "rng_sim a (wb\<lparr>observed := []\<rparr>) b (?w3\<lparr>observed := []\<rparr>)"
      using len fa rb gb by (simp add: rng_sim_def)
    from trace_eq_of_sim [OF cfg this] show ?thesis .
  qed
  from first second show ?thesis by blast
qed

theorem C2_seed_determinism_witness:
  "(case DatasetGenerator_init example_library
          ((default_args [''P_1''] [(''P_1'', 1::int)])
             \<lparr>arg_n_channels := 1, arg_to_augment := True,
              arg_augment_types := [''rotate'', ''noise'']\<rparr>) example_world of
      (Inl e, w) \<Rightarrow> False
    | (Inr a, wa) \<Rightarrow>
        (case DatasetGenerator_init example_library
                ((default_args [''P_1''] [(''P_1'', 1::int)])
                   \<lparr>arg_n_channels := 1, arg_to_augment := True,
                    arg_augment_types := [''rotate'', ''noise'']\<rparr>) wa of
            (Inl e, w) \<Rightarrow> False
          | (Inr b, wb) \<Rightarrow>
              trace example_library (example_files ''P_1_FLAIR.npy'') a [1, 2, 1] wb
                = [Angle (- 138), NoiseOutcome (Inr (NDArray [2, 1, 1] [49, 50])), Angle (- 137)]
            \<and> trace example_library (example_files ''P_1_FLAIR.npy'') b [1, 2, 1]
                  (run_accesses example_library (example_files ''P_1_FLAIR.npy'') a [1, 2, 1] wb)
                = [Angle (- 138), NoiseOutcome (Inr (NDArray [2, 1, 1] [49, 50])), Angle (- 137)]))"
proof -
  let ?args = "(default_args [''P_1''] [(''P_1'', 1::int)])
             \<lparr>arg_n_channels := 1, arg_to_augment := True,
              arg_augment_types := [''rotate'', ''noise'']\<rparr>"
  let ?fs = "example_files ''P_1_FLAIR.npy''"
  obtain a wa where
    ia: "DatasetGenerator_init example_library ?args example_world = (Inr a, wa)"
    by (simp add: DatasetGenerator_init_def default_args_def expand_index_def Let_def
          split: prod.splits)
  obtain b wb where
    ib: "DatasetGenerator_init example_library ?args wa = (Inr b, wb)"
    by (simp add: DatasetGenerator_init_def default_args_def expand_index_def Let_def
          split: prod.splits)
  from ia have s: "labels a = [(''P_1'', 1), (''P_1_rotate'', 1), (''P_1_noise'', 1)]"
    "n_channels a = 1" "modality a = [''FLAIR'']" "to_augment a"
    "augment_types a = [''rotate'', ''noise'']" "\<not> to_sectionate a"
    "data_dir a = ''../../data/upenn_GBM/images/NIfTI-files/''"
    "rng_noise a = 0" "rng_rotate a = 1" "transform a = None" "target_transform a = None"
    by (auto simp: DatasetGenerator_init_def default_args_def expand_index_def Let_def
          suffixed_copy_def dict_values_def example_world_def)
  from ia ib have w: "generators wb = [42, 42, 42, 42]"
    by (auto simp: DatasetGenerator_init_def default_args_def expand_index_def Let_def
          example_world_def example_library_def split: prod.splits)
  have ta: "trace example_library ?fs a [1, 2, 1] wb
     = [Angle (- 138), NoiseOutcome (Inr (NDArray [2, 1, 1] [49, 50])), Angle (- 137)]"
    using s w
    by (simp add: trace_def DatasetGenerator_getitem_def get_pat_array_def
          example_library_def example_files_def index_of_def loc_label_def
          py_index_def file_name_def os_path_join_def np_load_def select_channels_def
          getitem_int_def chunk_def augment_def routed_def apply_rotation_def apply_noise_def
          expand_dims0_def Let_def)
  from C2_seed_determinism [OF ia ib, of ?fs "[1, 2, 1]"] ta
  have tb: "trace example_library ?fs b [1, 2, 1]
              (run_accesses example_library ?fs a [1, 2, 1] wb)
     = [Angle (- 138), NoiseOutcome (Inr (NDArray [2, 1, 1] [49, 50])), Angle (- 137)]"
    by simp
  from ia ib ta tb show ?thesis by simp
qed

end
